theory Spec2Isabelle
  imports Complex_Main
begin

section \<open>Ticker input\<close>

text \<open>
  Lines 164-165 of \<^verbatim>\<open>asset_analysis-app.py\<close>:
  \<^verbatim>\<open>tickers = st.text_input(...).split(',')\<close> and
  \<^verbatim>\<open>tickers = [ticker.strip().upper() for ticker in tickers if ticker.strip()]\<close>.
  The text is modelled as a list of 7-bit characters. \<open>is_space\<close> is Python's
  \<^verbatim>\<open>str.isspace\<close> on that range (TAB, LF, VT, FF, CR, FS, GS, RS, US, SPACE) and
  \<open>upper_char\<close> is \<^verbatim>\<open>str.upper\<close> on it (only a-z change).
\<close>

definition is_space :: "char \<Rightarrow> bool" where
  "is_space c = (let n = (of_char c :: nat) in (9 \<le> n \<and> n \<le> 13) \<or> (28 \<le> n \<and> n \<le> 32))"

definition is_lower :: "char \<Rightarrow> bool" where
  "is_lower c = (let n = (of_char c :: nat) in 97 \<le> n \<and> n \<le> 122)"

definition upper_char :: "char \<Rightarrow> char" where
  "upper_char c = (if is_lower c then char_of ((of_char c :: nat) - 32) else c)"

text \<open>\<^verbatim>\<open>str.split(',')\<close>: one piece more than there are commas; the empty text gives one empty piece.\<close>

fun split_comma :: "string \<Rightarrow> string list" where
  "split_comma [] = [[]]"
| "split_comma (c # cs) =
     (if c = CHR '','' then [] # split_comma cs
      else (case split_comma cs of w # ws \<Rightarrow> (c # w) # ws | [] \<Rightarrow> [[c]]))"

definition strip :: "string \<Rightarrow> string" where
  "strip s = rev (dropWhile is_space (rev (dropWhile is_space s)))"

definition upper :: "string \<Rightarrow> string" where
  "upper s = map upper_char s"

definition parse_tickers :: "string \<Rightarrow> string list" where
  "parse_tickers txt =
     map (\<lambda>t. upper (strip t)) (filter (\<lambda>t. strip t \<noteq> []) (split_comma txt))"

section \<open>Numbers, frames and datasets\<close>

text \<open>
  A float64 cell is modelled by \<open>fl\<close>: a finite value is an exact real (rounding error,
  the sign of zero and, but for the power of line 76, overflow are not modelled), and the
  three exceptional results of IEEE arithmetic are values of their own, so that a division
  by zero is a branch of the model and not HOL's \<open>x / 0 = 0\<close>.
\<close>

datatype fl = Fin real | PInf | NInf | NaN

text \<open>
  Exceptions that the modelled code can raise, the \<^verbatim>\<open>ValueError\<close>s caught by
  \<^verbatim>\<open>align_stock_data\<close>, and the messages given to \<^verbatim>\<open>st.error\<close>.
\<close>

datatype exn = KeyError | IndexError | ZeroDivisionError | ValueError

datatype valerr = All_empty | Max_of_empty

datatype message = Alignment_error valerr | Statistics_error exn

text \<open>
  A pandas DataFrame with a date index: the column labels, and the rows in order, each a
  date (a day number) with its cells by column label. A cell under a label that is not in
  \<open>columns\<close> is never read.
\<close>

record frame =
  columns :: "string list"
  rows :: "(int \<times> (string \<Rightarrow> fl)) list"

definition index :: "frame \<Rightarrow> int list" where
  "index f = map fst (rows f)"

text \<open>\<^verbatim>\<open>DataFrame.empty\<close>: true when either axis has length 0.\<close>

definition empty_frame :: "frame \<Rightarrow> bool" where
  "empty_frame f = (rows f = [] \<or> columns f = [])"

text \<open>\<^verbatim>\<open>data[mask]\<close> with a mask computed from the index.\<close>

definition keep_rows :: "(int \<Rightarrow> bool) \<Rightarrow> frame \<Rightarrow> frame" where
  "keep_rows p f = f\<lparr>rows := filter (\<lambda>r. p (fst r)) (rows f)\<rparr>"

text \<open>
  \<^verbatim>\<open>data.index.min()\<close>; \<open>None\<close> is \<^verbatim>\<open>NaT\<close>, the minimum of an empty index. Every
  comparison with \<^verbatim>\<open>NaT\<close> is false.
\<close>

definition index_min :: "frame \<Rightarrow> int option" where
  "index_min f = (if index f = [] then None else Some (Min (set (index f))))"

definition index_max :: "frame \<Rightarrow> int option" where
  "index_max f = (if index f = [] then None else Some (Max (set (index f))))"

fun ts_gt :: "int option \<Rightarrow> int option \<Rightarrow> bool" where
  "ts_gt (Some a) (Some b) = (a > b)"
| "ts_gt _ _ = False"

fun ts_ge :: "int \<Rightarrow> int option \<Rightarrow> bool" where
  "ts_ge d (Some c) = (d \<ge> c)"
| "ts_ge d None = False"

text \<open>
  Python's \<^verbatim>\<open>max\<close> over a generator: the first item, replaced by each later item that
  is greater than the one held; \<^verbatim>\<open>ValueError\<close> on no item.
\<close>

fun py_max_from :: "int option \<Rightarrow> int option list \<Rightarrow> int option" where
  "py_max_from cur [] = cur"
| "py_max_from cur (x # xs) = py_max_from (if ts_gt x cur then x else cur) xs"

fun py_max :: "int option list \<Rightarrow> valerr + int option" where
  "py_max [] = Inl Max_of_empty"
| "py_max (x # xs) = Inr (py_max_from x xs)"

text \<open>
  \<^verbatim>\<open>data_dict\<close>: a Python dict from ticker to frame, as the list of its items in
  insertion order (a dict's keys are distinct).
\<close>

type_synonym dataset = "(string \<times> frame) list"

section \<open>Alignment\<close>

text \<open>
  The three choices of the radio button: \<open>All_data\<close> is "Analyze all data available",
  \<open>Earliest_common\<close> is "Analyze from the earliest common date in the dataset" and
  \<open>Custom_date\<close> is "Analyze since a custom date".
\<close>

datatype align_option = All_data | Earliest_common | Custom_date

text \<open>Line 51: \<^verbatim>\<open>max(data.index.min() for data in data_dict.values())\<close>.\<close>

definition common_start_date :: "dataset \<Rightarrow> valerr + int option" where
  "common_start_date data_dict = py_max (map (\<lambda>(ticker, d). index_min d) data_dict)"

text \<open>
  Lines 50-57, the trimming. A custom date is a \<^verbatim>\<open>Timestamp\<close> or \<^verbatim>\<open>None\<close>; only
  \<^verbatim>\<open>None\<close> is falsy.
\<close>

definition trim :: "dataset \<Rightarrow> align_option \<Rightarrow> int option \<Rightarrow> int option \<Rightarrow> valerr + dataset" where
  "trim data_dict opt custom_start_date custom_end_date =
     (case opt of
        Earliest_common \<Rightarrow>
          (case common_start_date data_dict of
             Inl e \<Rightarrow> Inl e
           | Inr c \<Rightarrow> Inr (map (\<lambda>(ticker, d). (ticker, keep_rows (\<lambda>dt. ts_ge dt c) d)) data_dict))
      | Custom_date \<Rightarrow>
          (case (custom_start_date, custom_end_date) of
             (Some s, Some e) \<Rightarrow>
               Inr (map (\<lambda>(ticker, d). (ticker, keep_rows (\<lambda>dt. dt \<ge> s \<and> dt \<le> e) d)) data_dict)
           | _ \<Rightarrow> Inr data_dict)
      | All_data \<Rightarrow> Inr data_dict)"

text \<open>
  Lines 47-64. The result is the messages given to \<^verbatim>\<open>st.error\<close> and the returned dict;
  a caught \<^verbatim>\<open>ValueError\<close> returns the empty dict.
\<close>

definition align_stock_data ::
  "dataset \<Rightarrow> align_option \<Rightarrow> int option \<Rightarrow> int option \<Rightarrow> message list \<times> dataset" where
  "align_stock_data data_dict opt custom_start_date custom_end_date =
     (case trim data_dict opt custom_start_date custom_end_date of
        Inl e \<Rightarrow> ([Alignment_error e], [])
      | Inr trimmed \<Rightarrow>
          (let kept = filter (\<lambda>(ticker, d). \<not> empty_frame d) trimmed
           in if kept = [] then ([Alignment_error All_empty], []) else ([], kept)))"


definition in_window ::
  "dataset \<Rightarrow> align_option \<Rightarrow> int option \<Rightarrow> int option \<Rightarrow> int \<Rightarrow> bool" where
  "in_window data_dict opt custom_start_date custom_end_date dt =
     (case opt of
        All_data \<Rightarrow> True
      | Earliest_common \<Rightarrow>
          (case common_start_date data_dict of Inr (Some c) \<Rightarrow> dt \<ge> c | _ \<Rightarrow> False)
      | Custom_date \<Rightarrow>
          (case (custom_start_date, custom_end_date) of
             (Some s, Some e) \<Rightarrow> s \<le> dt \<and> dt \<le> e
           | _ \<Rightarrow> True))"

section \<open>Float arithmetic\<close>

text \<open>
  The arithmetic of \<open>fl\<close>: exact on finite values, IEEE 754 on the exceptional ones. A zero
  divisor counts as \<open>+0\<close>.
\<close>

definition finf :: "bool \<Rightarrow> fl" where
  "finf positive = (if positive then PInf else NInf)"

fun fneg :: "fl \<Rightarrow> fl" where
  "fneg (Fin a) = Fin (- a)"
| "fneg PInf = NInf"
| "fneg NInf = PInf"
| "fneg NaN = NaN"

fun fadd :: "fl \<Rightarrow> fl \<Rightarrow> fl" where
  "fadd (Fin a) (Fin b) = Fin (a + b)"
| "fadd NaN y = NaN"
| "fadd x NaN = NaN"
| "fadd (Fin a) y = y"
| "fadd x (Fin b) = x"
| "fadd x y = (if x = y then x else NaN)"

definition fsub :: "fl \<Rightarrow> fl \<Rightarrow> fl" where
  "fsub x y = fadd x (fneg y)"

fun fmul :: "fl \<Rightarrow> fl \<Rightarrow> fl" where
  "fmul (Fin a) (Fin b) = Fin (a * b)"
| "fmul NaN y = NaN"
| "fmul x NaN = NaN"
| "fmul (Fin a) y = (if a = 0 then NaN else finf ((a > 0) = (y = PInf)))"
| "fmul x (Fin b) = (if b = 0 then NaN else finf ((b > 0) = (x = PInf)))"
| "fmul x y = finf (x = y)"

fun fdiv :: "fl \<Rightarrow> fl \<Rightarrow> fl" where
  "fdiv (Fin a) (Fin b) =
     (if b \<noteq> 0 then Fin (a / b) else if a = 0 then NaN else finf (a > 0))"
| "fdiv NaN y = NaN"
| "fdiv x NaN = NaN"
| "fdiv (Fin a) y = Fin 0"
| "fdiv x (Fin b) = finf ((b \<ge> 0) = (x = PInf))"
| "fdiv x y = NaN"

text \<open>
  \<^verbatim>\<open>base ** e\<close> for a float64 base and a positive exponent that is not an integer, the
  only exponents line 76 produces (\<^verbatim>\<open>1 / years\<close> is \<open>1461 / (4 * days)\<close> with
  \<open>days > 0\<close>, never an integer): a negative base gives \<^verbatim>\<open>nan\<close>. A short window makes
  the exponent large, and the power leaves the float64 range on ordinary prices, so its
  overflow is modelled: a power that round-to-nearest takes beyond the largest float64
  is \<^verbatim>\<open>inf\<close>. Its rounding error is not modelled.
\<close>

definition float64_overflow :: real where
  "float64_overflow = 2 ^ 1024 - 2 ^ 970"

fun fpow :: "fl \<Rightarrow> real \<Rightarrow> fl" where
  "fpow (Fin b) e =
     (if b > 0 then (if b powr e \<ge> float64_overflow then PInf else Fin (b powr e))
      else if b = 0 then Fin 0 else NaN)"
| "fpow PInf e = PInf"
| "fpow NInf e = PInf"
| "fpow NaN e = NaN"

fun flt :: "fl \<Rightarrow> fl \<Rightarrow> bool" where
  "flt (Fin a) (Fin b) = (a < b)"
| "flt NaN y = False"
| "flt x NaN = False"
| "flt x NInf = False"
| "flt NInf y = True"
| "flt PInf y = False"
| "flt x PInf = True"

text \<open>Rounding to 4 decimals, ties to the even digit (\<^verbatim>\<open>round(x, 4)\<close>, \<^verbatim>\<open>.round(4)\<close>).\<close>

definition round_half_even :: "real \<Rightarrow> int" where
  "round_half_even x =
     (let f = \<lfloor>x\<rfloor>; d = x - of_int f
      in if d < 1 / 2 then f else if d > 1 / 2 then f + 1 else if even f then f else f + 1)"

definition round4 :: "real \<Rightarrow> real" where
  "round4 x = of_int (round_half_even (x * 10000)) / 10000"

fun fround4 :: "fl \<Rightarrow> fl" where
  "fround4 (Fin x) = Fin (round4 x)"
| "fround4 x = x"

section \<open>Columns and series\<close>

text \<open>\<^verbatim>\<open>data[name]\<close>: the cells of a column in row order, \<^verbatim>\<open>KeyError\<close> on an unknown label.\<close>

definition column :: "frame \<Rightarrow> string \<Rightarrow> exn + fl list" where
  "column f name =
     (if name \<in> set (columns f) then Inr (map (\<lambda>r. snd r name) (rows f)) else Inl KeyError)"

text \<open>\<^verbatim>\<open>data[name] = values\<close>: the column is overwritten, or added as the last one.\<close>

definition set_column :: "frame \<Rightarrow> string \<Rightarrow> fl list \<Rightarrow> frame" where
  "set_column f name vals =
     \<lparr>columns = (if name \<in> set (columns f) then columns f else columns f @ [name]),
      rows = map2 (\<lambda>r v. (fst r, (snd r)(name := v))) (rows f) vals\<rparr>"

text \<open>
  \<^verbatim>\<open>Series.cummax()\<close>: the running maximum; a \<^verbatim>\<open>NaN\<close> cell stays \<^verbatim>\<open>NaN\<close> and does
  not enter the maximum.
\<close>

fun cummax_from :: "fl option \<Rightarrow> fl list \<Rightarrow> fl list" where
  "cummax_from m [] = []"
| "cummax_from m (x # xs) =
     (if x = NaN then NaN # cummax_from m xs
      else (let m' = (case m of None \<Rightarrow> x | Some y \<Rightarrow> if flt y x then x else y)
            in m' # cummax_from (Some m') xs))"

definition cummax :: "fl list \<Rightarrow> fl list" where
  "cummax xs = cummax_from None xs"

definition dropna :: "fl list \<Rightarrow> fl list" where
  "dropna xs = filter (\<lambda>x. x \<noteq> NaN) xs"

text \<open>\<^verbatim>\<open>Series.min()\<close>: the least cell that is not \<^verbatim>\<open>NaN\<close>; \<^verbatim>\<open>NaN\<close> when there is none.\<close>

definition fmin :: "fl list \<Rightarrow> fl" where
  "fmin xs =
     (case dropna xs of [] \<Rightarrow> NaN | y # ys \<Rightarrow> foldl (\<lambda>m x. if flt x m then x else m) y ys)"

text \<open>
  \<^verbatim>\<open>Series.pct_change()\<close> on a column without \<^verbatim>\<open>NaN\<close> (\<^verbatim>\<open>fetch_stock_data\<close> drops the
  rows that have one): \<^verbatim>\<open>NaN\<close> first, then each cell over the one before it, minus 1.
\<close>

definition pct_change :: "fl list \<Rightarrow> fl list" where
  "pct_change xs =
     (case xs of [] \<Rightarrow> []
      | x # rest \<Rightarrow> NaN # map2 (\<lambda>prev cur. fsub (fdiv cur prev) (Fin 1)) xs rest)"

section \<open>Statistics\<close>

text \<open>
  The library functions of lines 83-85 on a sample, by their documented formulas:
  \<^verbatim>\<open>scipy.stats.skew\<close> and \<^verbatim>\<open>kurtosis(fisher=True)\<close> from the biased central moments
  (\<^verbatim>\<open>nan\<close> for a sample without variance), \<^verbatim>\<open>Series.std()\<close> with \<open>n - 1\<close> in the
  denominator. A sample that holds an infinite value gives \<^verbatim>\<open>nan\<close>.
\<close>

fun finite_vals :: "fl list \<Rightarrow> real list option" where
  "finite_vals [] = Some []"
| "finite_vals (Fin x # xs) = map_option ((#) x) (finite_vals xs)"
| "finite_vals (x # xs) = None"

definition mean :: "real list \<Rightarrow> real" where
  "mean xs = sum_list xs / real (length xs)"

definition moment :: "nat \<Rightarrow> real list \<Rightarrow> real" where
  "moment k xs = mean (map (\<lambda>x. (x - mean xs) ^ k) xs)"

definition skew :: "fl list \<Rightarrow> fl" where
  "skew a =
     (case finite_vals a of None \<Rightarrow> NaN
      | Some xs \<Rightarrow> if moment 2 xs = 0 then NaN else Fin (moment 3 xs / (moment 2 xs) powr (3 / 2)))"

definition kurtosis :: "fl list \<Rightarrow> fl" where
  "kurtosis a =
     (case finite_vals a of None \<Rightarrow> NaN
      | Some xs \<Rightarrow> if moment 2 xs = 0 then NaN else Fin (moment 4 xs / (moment 2 xs) ^ 2 - 3))"

definition std :: "fl list \<Rightarrow> fl" where
  "std a =
     (case finite_vals a of None \<Rightarrow> NaN
      | Some xs \<Rightarrow>
          if length xs < 2 then NaN
          else Fin (sqrt (sum_list (map (\<lambda>x. (x - mean xs) ^ 2) xs) / real (length xs - 1))))"

text \<open>The record of lines 86-96; the empty dict is \<open>None\<close>. Dates are day numbers.\<close>

record stats =
  start_date :: int
  end_date :: int
  years_elapsed :: real
  cagr_pct :: fl
  max_drawdown_pct :: fl
  volatility_pct :: fl
  skewness :: fl
  excess_kurtosis :: fl
  cumulative_return_pct :: fl

text \<open>Line 74: \<^verbatim>\<open>(data.index.max() - data.index.min()).days / 365.25\<close>.\<close>

definition years_of :: "frame \<Rightarrow> real" where
  "years_of data = real_of_int (Max (set (index data)) - Min (set (index data))) / 365.25"

text \<open>Line 76: \<^verbatim>\<open>(final_value + 1) ** (1 / years) - 1\<close>, for \<open>years \<noteq> 0\<close>.\<close>

definition cagr :: "fl \<Rightarrow> real \<Rightarrow> fl" where
  "cagr final_value years = fsub (fpow (fadd final_value (Fin 1)) (1 / years)) (Fin 1)"

text \<open>Lines 77-79.\<close>

definition drawdowns :: "fl list \<Rightarrow> fl list" where
  "drawdowns prices = map2 (\<lambda>p m. fdiv (fsub p m) m) prices (cummax prices)"

definition max_drawdown :: "fl list \<Rightarrow> fl" where
  "max_drawdown prices = fmin (drawdowns prices)"

text \<open>Line 80.\<close>

definition daily_returns :: "fl list \<Rightarrow> fl list" where
  "daily_returns prices = dropna (pct_change prices)"

text \<open>
  The body of the \<^verbatim>\<open>try\<close> of lines 68-96, in the order of the source: \<open>Inl\<close> is the
  exception raised, \<open>Inr None\<close> the empty dict of the two guards.
\<close>

definition statistics_body :: "frame \<Rightarrow> string \<Rightarrow> exn + stats option" where
  "statistics_body data price_column =
     (if length (rows data) < 2 then Inr None
      else
        (case column data ''Cumulative Return'' of
           Inl e \<Rightarrow> Inl e
         | Inr cum \<Rightarrow>
             (let final_value = last cum; years = years_of data
              in if years = 0 then Inl ZeroDivisionError
                 else
                   (case column data price_column of
                      Inl e \<Rightarrow> Inl e
                    | Inr prices \<Rightarrow>
                        if length (daily_returns prices) < 2 then Inr None
                        else
                          Inr (Some
                            \<lparr>start_date = Min (set (index data)),
                             end_date = Max (set (index data)),
                             years_elapsed = round4 years,
                             cagr_pct = fround4 (fmul (cagr final_value years) (Fin 100)),
                             max_drawdown_pct = fround4 (fmul (max_drawdown prices) (Fin 100)),
                             volatility_pct =
                               fround4 (fmul (fmul (std (daily_returns prices)) (Fin (sqrt 252))) (Fin 100)),
                             skewness = fround4 (skew (daily_returns prices)),
                             excess_kurtosis = fround4 (kurtosis (daily_returns prices)),
                             cumulative_return_pct = fround4 (fmul final_value (Fin 100))\<rparr>)))))"

text \<open>
  Lines 66-99: every exception of the body is caught, reported with \<^verbatim>\<open>st.error\<close> and
  turned into the empty dict.
\<close>

definition calculate_statistics :: "frame \<Rightarrow> string \<Rightarrow> message list \<times> stats option" where
  "calculate_statistics data price_column =
     (case statistics_body data price_column of
        Inl e \<Rightarrow> ([Statistics_error e], None)
      | Inr r \<Rightarrow> ([], r))"

section \<open>Correlation\<close>

text \<open>
  \<^verbatim>\<open>DataFrame.corr()\<close> by its documented behaviour: Pearson correlation of each pair of
  columns over the rows where both have a value. The frame built from the dict of return
  series has the sorted union of their dates as index; within a series each date occurs
  once.
\<close>

type_synonym series = "(int \<times> fl) list"

definition returns_series :: "frame \<Rightarrow> string \<Rightarrow> series" where
  "returns_series data name =
     filter (\<lambda>(d, v). v \<noteq> NaN)
       (zip (index data) (pct_change (map (\<lambda>r. snd r name) (rows data))))"

definition union_index :: "series list \<Rightarrow> int list" where
  "union_index cols = sort (remdups (concat (map (map fst) cols)))"

definition paired :: "int list \<Rightarrow> series \<Rightarrow> series \<Rightarrow> (fl \<times> fl) list" where
  "paired idx a b =
     List.map_filter
       (\<lambda>d. case (map_of a d, map_of b d) of (Some x, Some y) \<Rightarrow> Some (x, y) | _ \<Rightarrow> None) idx"

text \<open>
  pandas' \<^verbatim>\<open>nancorr\<close> masks with \<^verbatim>\<open>np.isfinite\<close>: a row enters the correlation of two
  columns only when both of its values are finite.
\<close>

fun finite_pairs :: "(fl \<times> fl) list \<Rightarrow> (real \<times> real) list" where
  "finite_pairs [] = []"
| "finite_pairs ((Fin x, Fin y) # ps) = (x, y) # finite_pairs ps"
| "finite_pairs (p # ps) = finite_pairs ps"

text \<open>
  The sums of \<^verbatim>\<open>nancorr\<close> in closed form: \<open>sxx\<close> and \<open>syy\<close> are the sums of squared
  deviations, \<open>sxy\<close> the sum of their products. No row (fewer than \<^verbatim>\<open>min_periods = 1\<close>)
  or a zero divisor gives \<^verbatim>\<open>NaN\<close>.
\<close>

definition sxy :: "(real \<times> real) list \<Rightarrow> real" where
  "sxy ps = sum_list (map (\<lambda>(x, y). (x - mean (map fst ps)) * (y - mean (map snd ps))) ps)"

definition sxx :: "(real \<times> real) list \<Rightarrow> real" where
  "sxx ps = sum_list (map (\<lambda>(x, y). (x - mean (map fst ps)) ^ 2) ps)"

definition syy :: "(real \<times> real) list \<Rightarrow> real" where
  "syy ps = sum_list (map (\<lambda>(x, y). (y - mean (map snd ps)) ^ 2) ps)"

definition pearson :: "(fl \<times> fl) list \<Rightarrow> fl" where
  "pearson ps =
     (let qs = finite_pairs ps
      in if length qs < 1 then NaN
         else (let divisor = sqrt (sxx qs * syy qs)
               in if divisor \<noteq> 0 then Fin (sxy qs / divisor) else NaN))"

record corr_matrix =
  labels :: "string list"
  cells :: "fl list list"

text \<open>
  Lines 101-120. \<^verbatim>\<open>.loc[sorted_tickers, sorted_tickers]\<close> raises \<^verbatim>\<open>KeyError\<close> when a
  label is not a column of the correlation frame.
\<close>

definition return_columns :: "dataset \<Rightarrow> (string \<times> series) list" where
  "return_columns data_dict =
     map (\<lambda>(ticker, data). (ticker, returns_series data ''Adj Close''))
       (filter (\<lambda>(ticker, data). ''Adj Close'' \<in> set (columns data)) data_dict)"

definition calculate_correlation_table :: "dataset \<Rightarrow> string list \<Rightarrow> exn + corr_matrix" where
  "calculate_correlation_table data_dict sorted_tickers =
     (let daily = return_columns data_dict;
          idx = union_index (map snd daily);
          col = (\<lambda>ticker. case map_of daily ticker of Some s \<Rightarrow> s | None \<Rightarrow> [])
      in if \<forall>ticker \<in> set sorted_tickers. ticker \<in> fst ` set daily
         then Inr \<lparr>labels = sorted_tickers,
                   cells = map (\<lambda>r. map (\<lambda>c. fround4 (pearson (paired idx (col r) (col c))))
                                     sorted_tickers) sorted_tickers\<rparr>
         else Inl KeyError)"

section \<open>The analysis run\<close>

definition PRICE_COLUMNS :: "string list" where
  "PRICE_COLUMNS = [''Adj Close'', ''Close'']"

text \<open>Line 203: the first of \<^verbatim>\<open>PRICE_COLUMNS\<close> that the frame has.\<close>

definition price_col :: "frame \<Rightarrow> string option" where
  "price_col data = find (\<lambda>c. c \<in> set (columns data)) PRICE_COLUMNS"

text \<open>
  Line 205: \<^verbatim>\<open>data[price_col] / data[price_col].iloc[0] - 1\<close>, stored in the frame;
  \<^verbatim>\<open>.iloc[0]\<close> raises \<^verbatim>\<open>IndexError\<close> on a frame without rows.
\<close>

definition add_cumulative_return :: "frame \<Rightarrow> string \<Rightarrow> exn + frame" where
  "add_cumulative_return data pc =
     (case column data pc of
        Inl e \<Rightarrow> Inl e
      | Inr [] \<Rightarrow> Inl IndexError
      | Inr (first # rest) \<Rightarrow>
          Inr (set_column data ''Cumulative Return''
                 (map (\<lambda>p. fsub (fdiv p first) (Fin 1)) (first # rest))))"

text \<open>
  Lines 201-206, one pass of the loop and the loop. The state is the messages shown so
  far, the frames as the loop leaves them and \<^verbatim>\<open>stats_dict\<close>.
\<close>

type_synonym stats_dict = "(string \<times> stats option) list"

type_synonym loop_state = "message list \<times> dataset \<times> stats_dict"

definition stats_step :: "loop_state \<Rightarrow> string \<times> frame \<Rightarrow> (message list \<times> exn) + loop_state" where
  "stats_step s item =
     (case (s, item) of
        ((msgs, done, sd), (ticker, data)) \<Rightarrow>
          (case price_col data of
             None \<Rightarrow> Inr (msgs, done @ [(ticker, data)], sd)
           | Some pc \<Rightarrow>
               (case add_cumulative_return data pc of
                  Inl e \<Rightarrow> Inl (msgs, e)
                | Inr data' \<Rightarrow>
                    (case calculate_statistics data' pc of
                       (m, st) \<Rightarrow> Inr (msgs @ m, done @ [(ticker, data')], sd @ [(ticker, st)])))))"

fun stats_loop :: "loop_state \<Rightarrow> dataset \<Rightarrow> (message list \<times> exn) + loop_state" where
  "stats_loop s [] = Inr s"
| "stats_loop s (item # items) =
     (case stats_step s item of Inl e \<Rightarrow> Inl e | Inr s' \<Rightarrow> stats_loop s' items)"

text \<open>
  Lines 209-213: the key of each ticker is read first (\<^verbatim>\<open>KeyError\<close> on an empty
  record), then the tickers are sorted by it, descending and stable. For keys that
  \<open>flt\<close> orders totally every stable sort gives this list.
\<close>

fun rank_keys :: "stats_dict \<Rightarrow> exn + (string \<times> fl) list" where
  "rank_keys [] = Inr []"
| "rank_keys ((ticker, None) # sd) = Inl KeyError"
| "rank_keys ((ticker, Some st) # sd) =
     (case rank_keys sd of
        Inl e \<Rightarrow> Inl e
      | Inr ks \<Rightarrow> Inr ((ticker, cumulative_return_pct st) # ks))"

fun insert_desc :: "string \<times> fl \<Rightarrow> (string \<times> fl) list \<Rightarrow> (string \<times> fl) list" where
  "insert_desc x [] = [x]"
| "insert_desc x (y # ys) = (if flt (snd x) (snd y) then y # insert_desc x ys else x # y # ys)"

definition sorted_tickers :: "stats_dict \<Rightarrow> exn + string list" where
  "sorted_tickers sd =
     (case rank_keys sd of
        Inl e \<Rightarrow> Inl e
      | Inr ks \<Rightarrow> Inr (map fst (foldr insert_desc ks [])))"

text \<open>
  Lines 122-150: the tick format from the time span of all frames (a frame without rows
  makes the span \<^verbatim>\<open>NaT\<close>, and \<^verbatim>\<open>NaT.days < 30\<close> is false), and one trace per ranked
  ticker: its label value, its dates and its cumulative returns.
\<close>

fun ts_lt :: "int option \<Rightarrow> int option \<Rightarrow> bool" where
  "ts_lt (Some a) (Some b) = (a < b)"
| "ts_lt _ _ = False"

fun py_min_from :: "int option \<Rightarrow> int option list \<Rightarrow> int option" where
  "py_min_from cur [] = cur"
| "py_min_from cur (x # xs) = py_min_from (if ts_lt x cur then x else cur) xs"

definition time_horizon_days :: "dataset \<Rightarrow> int option" where
  "time_horizon_days data_dict =
     (case (map (\<lambda>(ticker, d). index_max d) data_dict, map (\<lambda>(ticker, d). index_min d) data_dict) of
        (hi # his, lo # los) \<Rightarrow>
          (case (py_max_from hi his, py_min_from lo los) of
             (Some a, Some b) \<Rightarrow> Some (a - b)
           | _ \<Rightarrow> None)
      | _ \<Rightarrow> None)"

type_synonym trace = "string \<times> fl \<times> int list \<times> fl list"

record chart =
  tickformat :: string
  traces :: "trace list"

fun plot_traces :: "dataset \<Rightarrow> stats_dict \<Rightarrow> string list \<Rightarrow> exn + trace list" where
  "plot_traces data_dict sd [] = Inr []"
| "plot_traces data_dict sd (ticker # tickers) =
     (case map_of data_dict ticker of
        None \<Rightarrow> Inl KeyError
      | Some data \<Rightarrow>
          (case column data ''Cumulative Return'' of
             Inl e \<Rightarrow> Inl e
           | Inr ys \<Rightarrow>
               (case map_of sd ticker of
                  Some (Some st) \<Rightarrow>
                    (case plot_traces data_dict sd tickers of
                       Inl e \<Rightarrow> Inl e
                     | Inr trs \<Rightarrow> Inr ((ticker, cumulative_return_pct st, index data, ys) # trs))
                | _ \<Rightarrow> Inl KeyError)))"

definition plot_cumulative_returns :: "dataset \<Rightarrow> stats_dict \<Rightarrow> string list \<Rightarrow> exn + chart" where
  "plot_cumulative_returns data_dict sd ranked =
     (if data_dict = [] then Inl ValueError
      else
        (let fmt = (case time_horizon_days data_dict of
                      Some n \<Rightarrow> if n < 30 then ''.2%'' else ''.0%''
                    | None \<Rightarrow> ''.0%'')
         in case plot_traces data_dict sd ranked of
              Inl e \<Rightarrow> Inl e
            | Inr trs \<Rightarrow> Inr \<lparr>tickformat = fmt, traces = trs\<rparr>))"

text \<open>
  Lines 169-234, from the fetched \<^verbatim>\<open>data_dict\<close> on. A run ends in an exception that
  nothing catches (\<open>Crashed\<close>), stops at a falsy \<^verbatim>\<open>data_dict\<close> with nothing computed
  (\<open>Halted\<close>), or shows the statistics table, the correlation matrix (for more than one
  ticker) and the chart (\<open>Finished\<close>). Each carries the messages shown. The two dates
  are those of the date widgets, read only for \<open>Custom_date\<close>.
\<close>

record report =
  ranking :: "string list"
  stats_table :: "(string \<times> stats option) list"
  correlation :: "corr_matrix option"
  figure :: chart

datatype outcome = Crashed "message list" exn | Halted "message list" | Finished "message list" report

definition dispatch_align :: "dataset \<Rightarrow> align_option \<Rightarrow> int \<Rightarrow> int \<Rightarrow> message list \<times> dataset" where
  "dispatch_align data_dict opt custom_start custom_end =
     (case opt of
        Custom_date \<Rightarrow> align_stock_data data_dict opt (Some custom_start) (Some custom_end)
      | All_data \<Rightarrow> ([], data_dict)
      | Earliest_common \<Rightarrow> align_stock_data data_dict opt None None)"

definition run_analysis :: "dataset \<Rightarrow> align_option \<Rightarrow> int \<Rightarrow> int \<Rightarrow> outcome" where
  "run_analysis data_dict opt custom_start custom_end =
     (if data_dict = [] then Halted []
      else
        (case dispatch_align data_dict opt custom_start custom_end of
           (msgs, aligned) \<Rightarrow>
             if aligned = [] then Halted msgs
             else
               (case stats_loop (msgs, [], []) aligned of
                  Inl (msgs', e) \<Rightarrow> Crashed msgs' e
                | Inr (msgs', dd, sd) \<Rightarrow>
                    (case sorted_tickers sd of
                       Inl e \<Rightarrow> Crashed msgs' e
                     | Inr ranked \<Rightarrow>
                         (case (if length dd > 1
                                then map_sum id Some (calculate_correlation_table dd ranked)
                                else Inr None) of
                            Inl e \<Rightarrow> Crashed msgs' e
                          | Inr corr \<Rightarrow>
                              (case plot_cumulative_returns dd sd ranked of
                                 Inl e \<Rightarrow> Crashed msgs' e
                               | Inr fig \<Rightarrow>
                                   Finished msgs'
                                     \<lparr>ranking = ranked,
                                      stats_table = map (\<lambda>t. (t, the (map_of sd t))) ranked,
                                      correlation = corr,
                                      figure = fig\<rparr>))))))"

section \<open>Example inputs\<close>

definition ex_row :: "int \<Rightarrow> real \<Rightarrow> int \<times> (string \<Rightarrow> fl)" where
  "ex_row d p = (d, (\<lambda>c. NaN)(''Adj Close'' := Fin p, ''Close'' := Fin p))"

definition ex_frame :: "string list \<Rightarrow> (int \<times> real) list \<Rightarrow> frame" where
  "ex_frame cols ps = \<lparr>columns = cols, rows = map (\<lambda>(d, p). ex_row d p) ps\<rparr>"

definition both :: "string list" where
  "both = [''Adj Close'', ''Close'']"

definition ex_two :: dataset where
  "ex_two = [(''A'', ex_frame both [(1, 10), (2, 11), (3, 12)]),
             (''B'', ex_frame both [(2, 5), (3, 4), (4, 6)])]"


definition ex_rising :: frame where
  "ex_rising = set_column (ex_frame both [(1, 5), (2, 6), (3, 7)]) ''Cumulative Return''
                 [Fin 0, Fin (1 / 5), Fin (2 / 5)]"

definition ex_steep :: frame where
  "ex_steep = set_column (ex_frame both [(1, 1), (2, 2), (3, 64)]) ''Cumulative Return''
                [Fin 0, Fin 1, Fin 63]"

definition ex_single :: frame where
  "ex_single = set_column (ex_frame both [(1, 10)]) ''Cumulative Return'' [Fin 0]"

definition ex_short :: dataset where
  "ex_short = [(''A'', ex_frame both [(1, 10)]), (''B'', ex_frame both [(1, 5), (2, 6), (3, 7)])]"

definition ex_close_only :: dataset where
  "ex_close_only = [(''A'', ex_frame [''Close''] [(1, 10), (2, 11), (3, 12)]),
                    (''B'', ex_frame [''Close''] [(1, 5), (2, 6), (3, 7)])]"

definition ex_no_rows :: dataset where
  "ex_no_rows = [(''A'', ex_frame both [])]"

definition ex_close_A :: frame where
  "ex_close_A = set_column (ex_frame [''Close''] [(1, 10), (2, 11), (3, 12)]) ''Cumulative Return''
                  [Fin 0, Fin (1 / 10), Fin (1 / 5)]"

definition ex_close_B :: frame where
  "ex_close_B = set_column (ex_frame [''Close''] [(1, 5), (2, 6), (3, 7)]) ''Cumulative Return''
                  [Fin 0, Fin (1 / 5), Fin (2 / 5)]"

definition ex_flat :: dataset where
  "ex_flat = [(''A'', ex_frame both [(1, 10), (2, 10), (3, 10)]),
              (''B'', ex_frame both [(1, 5), (2, 6), (3, 7)])]"

section \<open>Auxiliary notions\<close>

text \<open>The drawdowns of finite positive prices after a running maximum \<open>m\<close>, as reals.\<close>

fun dds :: "real \<Rightarrow> real list \<Rightarrow> real list" where
  "dds m [] = []"
| "dds m (p # ps) = (let m' = max m p in (p - m') / m' # dds m' ps)"

text \<open>
  A return series whose dates are distinct and whose values are finite and not all equal.
\<close>

fun is_fin :: "fl \<Rightarrow> bool" where
  "is_fin (Fin x) = True"
| "is_fin x = False"

definition varying_returns :: "series \<Rightarrow> bool" where
  "varying_returns s =
     (distinct (map fst s) \<and> list_all (\<lambda>(d, v). is_fin v) s
      \<and> list_ex (\<lambda>(d, v). v \<noteq> snd (hd s)) s)"

section \<open>Properties of the ticker input\<close>

lemma of_char_less_256: "(of_char c :: nat) < 256"
proof -
  have "(of_char c :: nat) mod 256 < 256" by simp
  then show ?thesis by (simp only: of_char_mod_256)
qed

lemma of_char_upper_char: "is_lower c \<Longrightarrow> (of_char (upper_char c) :: nat) = of_char c - 32"
proof -
  assume l: "is_lower c"
  have "(of_char c :: nat) - 32 < 256" using of_char_less_256[of c] by arith
  then have "((of_char c :: nat) - 32) mod 256 = of_char c - 32" by (rule mod_less)
  with l show ?thesis by (simp add: upper_char_def)
qed

lemma is_space_upper_char: "is_space (upper_char c) = is_space c"
proof (cases "is_lower c")
  case True
  then show ?thesis using of_char_upper_char[OF True]
    by (auto simp: is_space_def is_lower_def Let_def)
next
  case False then show ?thesis by (simp add: upper_char_def)
qed

lemma not_lower_upper_char: "\<not> is_lower (upper_char c)"
proof (cases "is_lower c")
  case True
  then show ?thesis using of_char_upper_char[OF True]
    by (auto simp: is_lower_def Let_def)
next
  case False then show ?thesis by (simp add: upper_char_def)
qed

lemma upper_char_fix: "\<not> is_lower c \<Longrightarrow> upper_char c = c"
  by (simp add: upper_char_def)

lemma upper_idem: "upper (upper s) = upper s"
  by (simp add: upper_def upper_char_fix not_lower_upper_char)

lemma dropWhile_map_inv:
  "(\<And>x. P (f x) = P x) \<Longrightarrow> dropWhile P (map f xs) = map f (dropWhile P xs)"
  by (induction xs) auto

lemma strip_upper: "strip (upper s) = upper (strip s)"
  by (simp add: strip_def upper_def rev_map
      dropWhile_map_inv[of is_space upper_char, OF is_space_upper_char])

lemma strip_hd: "strip s \<noteq> [] \<Longrightarrow> \<not> is_space (hd (strip s))"
proof -
  assume ne: "strip s \<noteq> []"
  let ?t = "dropWhile is_space s"
  let ?u = "dropWhile is_space (rev ?t)"
  from ne have u: "?u \<noteq> []" by (simp add: strip_def)
  then have t: "?t \<noteq> []" by (metis dropWhile.simps(1) rev_is_Nil_conv)
  have "rev (takeWhile is_space (rev ?t) @ ?u) = rev (rev ?t)"
    by (simp only: takeWhile_dropWhile_id)
  then have "rev ?u @ rev (takeWhile is_space (rev ?t)) = ?t"
    by (simp only: rev_append rev_rev_ident)
  then have "hd ?t = hd (rev ?u @ rev (takeWhile is_space (rev ?t)))" by (rule arg_cong[OF sym])
  also have "\<dots> = hd (rev ?u)" using u by (simp only: hd_append2 rev_is_Nil_conv not_False_eq_True)
  finally have "hd ?t = hd (rev ?u)" .
  moreover have "\<not> is_space (hd ?t)" using t by (rule hd_dropWhile)
  ultimately show ?thesis by (simp add: strip_def)
qed

lemma strip_last: "strip s \<noteq> [] \<Longrightarrow> \<not> is_space (last (strip s))"
proof -
  assume ne: "strip s \<noteq> []"
  let ?u = "dropWhile is_space (rev (dropWhile is_space s))"
  from ne have u: "?u \<noteq> []" by (simp add: strip_def)
  then have "\<not> is_space (hd ?u)" by (rule hd_dropWhile)
  with u show ?thesis by (simp add: strip_def last_rev)
qed

lemma strip_fix: "t \<noteq> [] \<Longrightarrow> \<not> is_space (hd t) \<Longrightarrow> \<not> is_space (last t) \<Longrightarrow> strip t = t"
proof -
  assume t: "t \<noteq> []" and h: "\<not> is_space (hd t)" and l: "\<not> is_space (last t)"
  from t h have a: "dropWhile is_space t = t" by (cases t) auto
  from t l have "\<not> is_space (hd (rev t))" by (simp add: hd_rev)
  with t have "dropWhile is_space (rev t) = rev t" by (cases "rev t") auto
  with a show ?thesis by (simp add: strip_def)
qed

lemma strip_idem: "strip (strip s) = strip s"
  by (cases "strip s = []") (simp_all add: strip_fix strip_hd strip_last, simp add: strip_def)

lemma parse_tickers_elem:
  assumes "t \<in> set (parse_tickers txt)"
  shows "t \<noteq> [] \<and> strip t = t \<and> upper t = t \<and> \<not> is_space (hd t) \<and> \<not> is_space (last t)
         \<and> (\<forall>c \<in> set t. \<not> is_lower c)"
proof -
  from assms obtain p where p: "strip p \<noteq> []" and t: "t = upper (strip p)"
    by (auto simp: parse_tickers_def)
  have ne: "t \<noteq> []" using p t by (simp add: upper_def)
  have s: "strip t = t" using t by (simp add: strip_upper strip_idem)
  have u: "upper t = t" using t by (simp add: upper_idem)
  have "\<not> is_space (hd t)" using strip_hd[of t] s ne by simp
  moreover have "\<not> is_space (last t)" using strip_last[of t] s ne by simp
  moreover have "\<forall>c \<in> set t. \<not> is_lower c" using t by (auto simp: upper_def not_lower_upper_char)
  ultimately show ?thesis using ne s u by simp
qed

section \<open>Properties of the alignment\<close>

lemma keep_rows_True: "keep_rows (\<lambda>dt. True) d = d"
  by (simp add: keep_rows_def)

lemma empty_keep_rows_False: "empty_frame (keep_rows (\<lambda>dt. False) d)"
  by (simp add: keep_rows_def empty_frame_def)

lemma ts_ge_fun: "(\<lambda>dt. ts_ge dt c) = (\<lambda>dt. case c of Some c' \<Rightarrow> dt \<ge> c' | None \<Rightarrow> False)"
  by (cases c) auto

lemma finish_eq:
  "snd (let kept = filter P xs in if kept = [] then ([Alignment_error All_empty], []) else ([], kept))
   = filter P xs"
  by (simp add: Let_def)

lemma align_stock_data_eq:
  "snd (align_stock_data data_dict opt cs ce) =
     filter (\<lambda>(ticker, d). \<not> empty_frame d)
       (map (\<lambda>(ticker, d). (ticker, keep_rows (in_window data_dict opt cs ce) d)) data_dict)"
proof (cases opt)
  case All_data
  have w: "in_window data_dict opt cs ce = (\<lambda>dt. True)"
    by (rule ext) (simp add: in_window_def All_data)
  have m: "map (\<lambda>(ticker, d). (ticker, d)) data_dict = data_dict"
    by (induction data_dict) auto
  show ?thesis unfolding w
    by (simp add: align_stock_data_def trim_def All_data keep_rows_True Let_def m)
next
  case Custom_date
  show ?thesis
  proof (cases "\<exists>s e. cs = Some s \<and> ce = Some e")
    case True
    then obtain s e where se: "cs = Some s" "ce = Some e" by blast
    have w: "in_window data_dict opt cs ce = (\<lambda>dt. dt \<ge> s \<and> dt \<le> e)"
      by (rule ext) (auto simp add: in_window_def Custom_date se)
    show ?thesis unfolding w
      by (simp add: align_stock_data_def trim_def Custom_date se Let_def)
  next
    case False
    have w: "in_window data_dict opt cs ce = (\<lambda>dt. True)"
      using False by (intro ext) (auto simp add: in_window_def Custom_date split: option.splits)
    have m: "map (\<lambda>(ticker, d). (ticker, d)) data_dict = data_dict"
      by (induction data_dict) auto
    have t: "trim data_dict opt cs ce = Inr data_dict"
      using False by (auto simp: trim_def Custom_date split: option.splits)
    show ?thesis unfolding w
      by (simp add: align_stock_data_def t keep_rows_True Let_def m)
  qed
next
  case Earliest_common
  show ?thesis
  proof (cases "common_start_date data_dict")
    case (Inl e)
    then have "data_dict = []"
      by (cases data_dict) (auto simp: common_start_date_def)
    then show ?thesis
      by (simp add: align_stock_data_def trim_def Earliest_common common_start_date_def)
  next
    case (Inr c)
    have w: "in_window data_dict opt cs ce = (\<lambda>dt. ts_ge dt c)"
      by (rule ext) (cases c; simp add: in_window_def Earliest_common Inr)
    show ?thesis unfolding w
      by (simp add: align_stock_data_def trim_def Earliest_common Inr Let_def)
  qed
qed






lemmas ex_defs = ex_frame_def ex_row_def both_def
lemmas frame_defs = column_def set_column_def index_def empty_frame_def keep_rows_def
   index_min_def index_max_def

text \<open>
  C9 (amended). Every entry of the ticker list is non-empty, trimmed (stripping it changes
  nothing: it neither starts nor ends with whitespace) and upper-cased (it has no lower-case
  letter). Entries are not deduplicated.
\<close>

theorem parse_tickers_normalized:
  "\<forall>t \<in> set (parse_tickers txt).
     t \<noteq> [] \<and> strip t = t \<and> upper t = t \<and> \<not> is_space (hd t) \<and> \<not> is_space (last t)
     \<and> (\<forall>c \<in> set t. \<not> is_lower c)"
  using parse_tickers_elem by blast

theorem parse_tickers_normalized_witness:
  "parse_tickers '' aapl, msft ,,BTC-usd'' = [''AAPL'', ''MSFT'', ''BTC-USD'']
   \<and> list_all (\<lambda>t. t \<noteq> [] \<and> strip t = t \<and> upper t = t) (parse_tickers '' aapl, msft ,,BTC-usd'')"
proof -
  have a: "parse_tickers '' aapl, msft ,,BTC-usd'' = [''AAPL'', ''MSFT'', ''BTC-USD'']"
    by code_simp
  have "\<forall>t \<in> set (parse_tickers '' aapl, msft ,,BTC-usd''). t \<noteq> [] \<and> strip t = t \<and> upper t = t"
    using parse_tickers_normalized[of "'' aapl, msft ,,BTC-usd''"] by blast
  then show ?thesis using a by (simp add: list_all_iff)
qed

theorem parse_tickers_keeps_duplicates:
  "parse_tickers ''AAPL,aapl'' = [''AAPL'', ''AAPL''] \<and> \<not> distinct (parse_tickers ''AAPL,aapl'')"
  by code_simp

lemma align_member:
  assumes "(t, f') \<in> set (snd (align_stock_data dd opt cs ce))"
  shows "\<exists>f. (t, f) \<in> set dd \<and> f' = keep_rows (in_window dd opt cs ce) f \<and> \<not> empty_frame f'"
  using assms unfolding align_stock_data_eq by auto

text \<open>
  C10. Whatever the policy, the aligned dataset is the input dataset with every frame cut
  down to the rows whose date lies in the policy's window, in their order and with their
  cells and columns as they were, and with the frames left empty dropped. So its tickers
  are tickers of the input, and each of its frames is the windowed frame of the same
  ticker of the input.
\<close>

theorem align_frame:
  "snd (align_stock_data dd opt cs ce) =
     filter (\<lambda>(ticker, d). \<not> empty_frame d)
       (map (\<lambda>(ticker, d). (ticker, keep_rows (in_window dd opt cs ce) d)) dd)
   \<and> fst ` set (snd (align_stock_data dd opt cs ce)) \<subseteq> fst ` set dd
   \<and> (\<forall>(t, f') \<in> set (snd (align_stock_data dd opt cs ce)).
        \<exists>f. (t, f) \<in> set dd \<and> columns f' = columns f
          \<and> rows f' = filter (\<lambda>r. in_window dd opt cs ce (fst r)) (rows f))
   \<and> (distinct (map fst dd) \<longrightarrow>
        (\<forall>t f'. map_of (snd (align_stock_data dd opt cs ce)) t = Some f' \<longrightarrow>
           (\<exists>f. map_of dd t = Some f \<and> columns f' = columns f
             \<and> rows f' = filter (\<lambda>r. in_window dd opt cs ce (fst r)) (rows f))))"
proof (intro conjI)
  show "snd (align_stock_data dd opt cs ce) =
     filter (\<lambda>(ticker, d). \<not> empty_frame d)
       (map (\<lambda>(ticker, d). (ticker, keep_rows (in_window dd opt cs ce) d)) dd)"
    by (rule align_stock_data_eq)
  show "fst ` set (snd (align_stock_data dd opt cs ce)) \<subseteq> fst ` set dd"
  proof
    fix t assume "t \<in> fst ` set (snd (align_stock_data dd opt cs ce))"
    then obtain f' where "(t, f') \<in> set (snd (align_stock_data dd opt cs ce))" by auto
    then obtain f where "(t, f) \<in> set dd" using align_member by blast
    then show "t \<in> fst ` set dd" by force
  qed
  show "\<forall>(t, f') \<in> set (snd (align_stock_data dd opt cs ce)).
        \<exists>f. (t, f) \<in> set dd \<and> columns f' = columns f
          \<and> rows f' = filter (\<lambda>r. in_window dd opt cs ce (fst r)) (rows f)"
  proof (intro ballI, clarify)
    fix t f' assume "(t, f') \<in> set (snd (align_stock_data dd opt cs ce))"
    then obtain f where "(t, f) \<in> set dd" "f' = keep_rows (in_window dd opt cs ce) f"
      using align_member by blast
    then show "\<exists>f. (t, f) \<in> set dd \<and> columns f' = columns f
          \<and> rows f' = filter (\<lambda>r. in_window dd opt cs ce (fst r)) (rows f)"
      by (auto simp: keep_rows_def)
  qed
  show "distinct (map fst dd) \<longrightarrow>
        (\<forall>t f'. map_of (snd (align_stock_data dd opt cs ce)) t = Some f' \<longrightarrow>
           (\<exists>f. map_of dd t = Some f \<and> columns f' = columns f
             \<and> rows f' = filter (\<lambda>r. in_window dd opt cs ce (fst r)) (rows f)))"
  proof (intro impI allI)
    fix t f'
    assume d: "distinct (map fst dd)"
      and m: "map_of (snd (align_stock_data dd opt cs ce)) t = Some f'"
    from m have "(t, f') \<in> set (snd (align_stock_data dd opt cs ce))" by (rule map_of_SomeD)
    then obtain f where f: "(t, f) \<in> set dd" "f' = keep_rows (in_window dd opt cs ce) f"
      using align_member by blast
    from d f(1) have "map_of dd t = Some f" by simp
    with f(2) show "\<exists>f. map_of dd t = Some f \<and> columns f' = columns f
             \<and> rows f' = filter (\<lambda>r. in_window dd opt cs ce (fst r)) (rows f)"
      by (simp add: keep_rows_def)
  qed
qed

lemma ex_two_common: "common_start_date ex_two = Inr (Some 2)"
  by (simp add: ex_two_def common_start_date_def ex_defs frame_defs)

lemma ex_two_aligned:
  "align_stock_data ex_two Earliest_common None None =
     ([], [(''A'', ex_frame both [(2, 11), (3, 12)]), (''B'', ex_frame both [(2, 5), (3, 4), (4, 6)])])"
  by (simp add: align_stock_data_def trim_def ex_two_common Let_def)
     (simp add: ex_two_def ex_defs frame_defs)

theorem align_frame_witness:
  "distinct (map fst ex_two)
   \<and> map_of (snd (align_stock_data ex_two Earliest_common None None)) ''A''
       = Some (ex_frame both [(2, 11), (3, 12)])
   \<and> (\<exists>f. map_of ex_two ''A'' = Some f
        \<and> rows (ex_frame both [(2, 11), (3, 12)])
            = filter (\<lambda>r. in_window ex_two Earliest_common None None (fst r)) (rows f))"
proof -
  have d: "distinct (map fst ex_two)" by (simp add: ex_two_def)
  have m: "map_of (snd (align_stock_data ex_two Earliest_common None None)) ''A''
       = Some (ex_frame both [(2, 11), (3, 12)])"
    by (simp add: ex_two_aligned)
  from align_frame[of ex_two Earliest_common None None] d m
  have "\<exists>f. map_of ex_two ''A'' = Some f
        \<and> columns (ex_frame both [(2, 11), (3, 12)]) = columns f
        \<and> rows (ex_frame both [(2, 11), (3, 12)])
            = filter (\<lambda>r. in_window ex_two Earliest_common None None (fst r)) (rows f)"
    by blast
  with d m show ?thesis by blast
qed




section \<open>Properties of the statistics\<close>

lemma drawdowns_from:
  assumes "0 < m" and "\<forall>p \<in> set ps. 0 < p"
  shows "map2 (\<lambda>p m. fdiv (fsub p m) m) (map Fin ps) (cummax_from (Some (Fin m)) (map Fin ps))
         = map Fin (dds m ps)"
  using assms
proof (induction ps arbitrary: m)
  case Nil
  then show ?case by simp
next
  case (Cons p ps)
  have pos: "0 < max m p" using Cons.prems by simp
  have ih: "map2 (\<lambda>p m. fdiv (fsub p m) m) (map Fin ps)
              (cummax_from (Some (Fin (max m p))) (map Fin ps)) = map Fin (dds (max m p) ps)"
    using Cons.IH[OF pos] Cons.prems by simp
  have m': "(if m < p then Fin p else Fin m) = Fin (max m p)" by (simp add: max_def)
  show ?case using pos ih
    by (simp add: Let_def fsub_def m' del: max.absorb1 max.absorb2 max.absorb3 max.absorb4)
qed

lemma drawdowns_Fin:
  assumes "0 < p" and "\<forall>q \<in> set ps. 0 < q"
  shows "drawdowns (map Fin (p # ps)) = map Fin (0 # dds p ps)"
  using assms drawdowns_from[OF assms]
  by (simp add: drawdowns_def cummax_def fsub_def Let_def)

lemma dds_le0: "0 < m \<Longrightarrow> \<forall>p \<in> set ps. 0 < p \<Longrightarrow> \<forall>r \<in> set (dds m ps). r \<le> 0"
proof (induction ps arbitrary: m)
  case Nil
  then show ?case by simp
next
  case (Cons p ps)
  have pos: "0 < max m p" using Cons.prems by simp
  have "(p - max m p) / max m p \<le> 0" using pos by (simp add: divide_le_0_iff)
  moreover have "\<forall>r \<in> set (dds (max m p) ps). r \<le> 0" using Cons.IH[OF pos] Cons.prems by simp
  ultimately show ?case by (simp add: Let_def)
qed

lemma dds_zero_iff:
  "0 < m \<Longrightarrow> \<forall>p \<in> set ps. 0 < p \<Longrightarrow> (\<forall>r \<in> set (dds m ps). r = 0) \<longleftrightarrow> sorted (m # ps)"
proof (induction ps arbitrary: m)
  case Nil
  then show ?case by simp
next
  case (Cons p ps)
  have pos: "0 < max m p" using Cons.prems by simp
  have ih: "(\<forall>r \<in> set (dds (max m p) ps). r = 0) \<longleftrightarrow> sorted (max m p # ps)"
    using Cons.IH[OF pos] Cons.prems by simp
  have z: "((p - max m p) / max m p = 0) \<longleftrightarrow> m \<le> p" using pos by (auto simp: max_def)
  show ?case
  proof (cases "m \<le> p")
    case True
    then have "max m p = p" by simp
    with True ih z show ?thesis by (fastforce simp: Let_def)
  next
    case False
    with z show ?thesis by (auto simp: Let_def)
  qed
qed

lemma foldl_fmin_Fin:
  "foldl (\<lambda>m x. if flt x m then x else m) (Fin y) (map Fin ys) = Fin (Min (set (y # ys)))"
proof (induction ys arbitrary: y)
  case Nil
  then show ?case by simp
next
  case (Cons z zs)
  have "Min (set (y # z # zs)) = Min (set (min y z # zs))"
  proof (cases zs)
    case Nil then show ?thesis by simp
  next
    case (Cons w ws)
    then show ?thesis by (simp add: min.assoc)
  qed
  moreover have "(if z < y then Fin z else Fin y) = Fin (min y z)" by (simp add: min_def)
  ultimately show ?case using Cons.IH[of "min y z"] by (simp del: set_simps Min_insert)
qed

lemma dropna_Fin: "dropna (map Fin xs) = map Fin xs"
  by (induction xs) (simp_all add: dropna_def)

lemma fmin_Fin: "fmin (map Fin (y # ys)) = Fin (Min (set (y # ys)))"
  unfolding fmin_def dropna_Fin using foldl_fmin_Fin[of y ys] by simp

lemma max_drawdown_Fin:
  assumes "0 < p" and "\<forall>q \<in> set ps. 0 < q"
  shows "max_drawdown (map Fin (p # ps)) = Fin (Min (set (0 # dds p ps)))"
  unfolding max_drawdown_def drawdowns_Fin[OF assms] by (rule fmin_Fin)

lemma round_half_even_of_int: "round_half_even (of_int n) = n"
  by (simp add: round_half_even_def)

lemma round_half_even_mono: "x \<le> y \<Longrightarrow> round_half_even x \<le> round_half_even y"
proof -
  assume xy: "x \<le> y"
  have fl: "\<lfloor>x\<rfloor> \<le> \<lfloor>y\<rfloor>" using xy by (rule floor_mono)
  show ?thesis
  proof (cases "\<lfloor>x\<rfloor> = \<lfloor>y\<rfloor>")
    case True
    then have "x - of_int \<lfloor>x\<rfloor> \<le> y - of_int \<lfloor>y\<rfloor>" using xy by simp
    with True show ?thesis by (auto simp: round_half_even_def Let_def)
  next
    case False
    with fl have lt: "\<lfloor>x\<rfloor> + 1 \<le> \<lfloor>y\<rfloor>" by simp
    have a: "round_half_even x \<le> \<lfloor>x\<rfloor> + 1" by (simp add: round_half_even_def Let_def)
    have b: "\<lfloor>y\<rfloor> \<le> round_half_even y" by (simp add: round_half_even_def Let_def)
    from a lt b show ?thesis by linarith
  qed
qed

lemma round_half_even_error: "\<bar>of_int (round_half_even x) - x\<bar> \<le> 1 / 2"
proof -
  have a: "of_int \<lfloor>x\<rfloor> \<le> x" and b: "x < of_int \<lfloor>x\<rfloor> + 1" by linarith+
  show ?thesis
  proof (cases "x - of_int \<lfloor>x\<rfloor> < 1 / 2")
    case True
    then have "round_half_even x = \<lfloor>x\<rfloor>" by (simp add: round_half_even_def Let_def)
    then show ?thesis using a True by linarith
  next
    case False
    note nlt = this
    show ?thesis
    proof (cases "x - of_int \<lfloor>x\<rfloor> > 1 / 2")
      case True
      then have "round_half_even x = \<lfloor>x\<rfloor> + 1" using nlt by (simp add: round_half_even_def Let_def)
      then have "of_int (round_half_even x) = of_int \<lfloor>x\<rfloor> + (1::real)" by simp
      then show ?thesis using b True by linarith
    next
      case False
      with nlt have e: "x - of_int \<lfloor>x\<rfloor> = 1 / 2" by linarith
      have "round_half_even x = \<lfloor>x\<rfloor> \<or> round_half_even x = \<lfloor>x\<rfloor> + 1"
        by (simp add: round_half_even_def Let_def)
      then have "of_int (round_half_even x) = (of_int \<lfloor>x\<rfloor> :: real)
          \<or> of_int (round_half_even x) = of_int \<lfloor>x\<rfloor> + (1::real)" by auto
      then show ?thesis using e by linarith
    qed
  qed
qed

lemma round4_mono: "x \<le> y \<Longrightarrow> round4 x \<le> round4 y"
  using round_half_even_mono[of "x * 10000" "y * 10000"]
  by (simp add: round4_def divide_le_cancel)

lemma round4_of_int: "round4 (of_int n) = of_int n"
proof -
  have "of_int n * (10000::real) = of_int (n * 10000)" by simp
  then have "round_half_even (of_int n * 10000) = n * 10000"
    by (simp only: round_half_even_of_int)
  then show ?thesis by (simp add: round4_def)
qed

lemma round4_error: "\<bar>round4 x - x\<bar> \<le> 1 / 20000"
proof -
  have "\<bar>of_int (round_half_even (x * 10000)) - x * 10000\<bar> \<le> 1 / 2"
    by (rule round_half_even_error)
  then have "\<bar>(of_int (round_half_even (x * 10000)) - x * 10000) / 10000\<bar> \<le> (1 / 2) / 10000"
    by (simp only: abs_divide) simp
  then show ?thesis by (simp add: round4_def diff_divide_distrib)
qed

lemmas stat_defs = calculate_statistics_def statistics_body_def years_of_def daily_returns_def
   pct_change_def dropna_def fsub_def Let_def

lemma statistics_Some:
  assumes "snd (calculate_statistics data pc) = Some st"
  shows "2 \<le> length (rows data) \<and> years_of data \<noteq> 0
    \<and> (\<exists>cum. column data ''Cumulative Return'' = Inr cum
          \<and> cagr_pct st = fround4 (fmul (cagr (last cum) (years_of data)) (Fin 100)))
    \<and> (\<exists>prices. column data pc = Inr prices \<and> 2 \<le> length (daily_returns prices)
          \<and> max_drawdown_pct st = fround4 (fmul (max_drawdown prices) (Fin 100)))"
  using assms
  by (auto simp: calculate_statistics_def statistics_body_def Let_def
      split: if_splits sum.splits)

text \<open>
  C8. The statistics calculator returns a populated record only for a frame with at least
  2 rows whose price column gives at least 2 daily returns; with fewer than 2 rows
  (a single observation included) or fewer than 2 daily returns it returns the empty
  record. It always returns: an exception in the body becomes a message and the empty
  record.
\<close>

theorem statistics_presence_guard:
  "(\<forall>st. snd (calculate_statistics data pc) = Some st \<longrightarrow>
      2 \<le> length (rows data)
      \<and> (\<exists>prices. column data pc = Inr prices \<and> 2 \<le> length (daily_returns prices)))
   \<and> (length (rows data) < 2 \<longrightarrow> calculate_statistics data pc = ([], None))
   \<and> (\<forall>prices. column data pc = Inr prices \<and> length (daily_returns prices) < 2 \<longrightarrow>
        snd (calculate_statistics data pc) = None)"
proof (intro conjI allI impI)
  fix st assume "snd (calculate_statistics data pc) = Some st"
  from statistics_Some[OF this]
  show "2 \<le> length (rows data)"
    and "\<exists>prices. column data pc = Inr prices \<and> 2 \<le> length (daily_returns prices)"
    by blast+
next
  assume "length (rows data) < 2"
  then show "calculate_statistics data pc = ([], None)"
    by (simp add: calculate_statistics_def statistics_body_def)
next
  fix prices assume "column data pc = Inr prices \<and> length (daily_returns prices) < 2"
  then show "snd (calculate_statistics data pc) = None"
    by (auto simp: calculate_statistics_def statistics_body_def Let_def split: sum.splits)
qed

lemma ex_rising_populated: "\<exists>st. calculate_statistics ex_rising ''Adj Close'' = ([], Some st)"
  by (simp add: ex_rising_def ex_defs frame_defs stat_defs)

lemma ex_single_rows: "length (rows ex_single) = 1"
  by (simp add: ex_single_def ex_defs frame_defs)

theorem statistics_presence_guard_witness:
  "length (rows ex_single) < 2 \<and> calculate_statistics ex_single ''Adj Close'' = ([], None)
   \<and> (\<exists>st. snd (calculate_statistics ex_rising ''Adj Close'') = Some st)
   \<and> 2 \<le> length (rows ex_rising)
   \<and> (\<exists>prices. column ex_rising ''Adj Close'' = Inr prices \<and> 2 \<le> length (daily_returns prices))"
proof -
  have a: "length (rows ex_single) < 2" by (simp add: ex_single_rows)
  obtain st where b: "snd (calculate_statistics ex_rising ''Adj Close'') = Some st"
    using ex_rising_populated by force
  from statistics_presence_guard[of ex_single "''Adj Close''"] a
  have c: "calculate_statistics ex_single ''Adj Close'' = ([], None)" by blast
  from statistics_presence_guard[of ex_rising "''Adj Close''"] b
  have d: "2 \<le> length (rows ex_rising)
    \<and> (\<exists>prices. column ex_rising ''Adj Close'' = Inr prices \<and> 2 \<le> length (daily_returns prices))"
    by blast
  from a b c d show ?thesis by blast
qed

text \<open>
  C6. For a price series of at least 2 observations, all strictly positive, the maximum
  drawdown (the least of (price - running maximum) / running maximum) is a finite number
  that is at most 0, and it is 0 exactly when the prices never decrease. The reported
  percentage, rounded to 4 decimals, is at most 0 as well.
\<close>

theorem max_drawdown_nonpositive:
  assumes "2 \<le> length ps" and "\<forall>p \<in> set ps. 0 < p"
  shows "\<exists>m. max_drawdown (map Fin ps) = Fin m \<and> m \<le> 0 \<and> (m = 0 \<longleftrightarrow> sorted ps)
           \<and> (\<exists>r. fround4 (fmul (max_drawdown (map Fin ps)) (Fin 100)) = Fin r \<and> r \<le> 0)"
proof -
  from assms(1) obtain p qs where ps: "ps = p # qs" by (cases ps) auto
  from assms(2) have p: "0 < p" and qs: "\<forall>q \<in> set qs. 0 < q" by (simp_all add: ps)
  define m where "m = Min (set (0 # dds p qs))"
  have md: "max_drawdown (map Fin ps) = Fin m"
    unfolding ps m_def by (rule max_drawdown_Fin[OF p qs])
  have le: "m \<le> 0" unfolding m_def by (rule Min_le) simp_all
  have neg: "\<forall>r \<in> set (dds p qs). r \<le> 0" by (rule dds_le0[OF p qs])
  have "m = 0 \<longleftrightarrow> 0 \<le> m" using le by auto
  also have "\<dots> \<longleftrightarrow> (\<forall>r \<in> set (0 # dds p qs). 0 \<le> r)"
    unfolding m_def by (rule Min_ge_iff) simp_all
  also have "\<dots> \<longleftrightarrow> (\<forall>r \<in> set (dds p qs). r = 0)" using neg by (fastforce intro: antisym)
  also have "\<dots> \<longleftrightarrow> sorted ps" unfolding ps by (rule dds_zero_iff[OF p qs])
  finally have iff: "m = 0 \<longleftrightarrow> sorted ps" .
  have z: "round4 0 = 0" using round4_of_int[of 0] by simp
  have "round4 (m * 100) \<le> round4 0" using le by (intro round4_mono) simp
  then have r: "round4 (m * 100) \<le> 0" by (simp only: z)
  show ?thesis using md le iff r by simp
qed

theorem max_drawdown_nonpositive_witness:
  "2 \<le> length [10, 12, 9 :: real] \<and> list_all (\<lambda>p. 0 < p) [10, 12, 9 :: real]
   \<and> max_drawdown (map Fin [10, 12, 9]) = Fin (- 1 / 4) \<and> \<not> sorted [10, 12, 9 :: real]"
proof -
  have h1: "2 \<le> length [10, 12, 9 :: real]" by simp
  have h2: "\<forall>p \<in> set [10, 12, 9 :: real]. 0 < p" by simp
  have e: "max_drawdown (map Fin [10, 12, 9]) = Fin (- 1 / 4)"
    by (simp add: max_drawdown_def drawdowns_def cummax_def fmin_def dropna_def fsub_def Let_def)
  from max_drawdown_nonpositive[OF h1 h2] obtain m where
    m: "max_drawdown (map Fin [10, 12, 9]) = Fin m" "m = 0 \<longleftrightarrow> sorted [10, 12, 9 :: real]"
    by blast
  from m(1) e have "m = - 1 / 4" by simp
  with m(2) have "\<not> sorted [10, 12, 9 :: real]" by simp
  with e show ?thesis by simp
qed

text \<open>
  The power of line 76 overflows on a series that rises from 1 to 64 within 2 days: the
  cumulative return is 63, the exponent 1461 / 8, and the CAGR is \<^verbatim>\<open>inf\<close>.
\<close>

lemma cagr_overflows: "cagr (Fin 63) (8 / 1461) = PInf"
proof -
  have "(64::real) = 2 powr 6" by simp
  then have "(64::real) powr (1461 / 8) = (2 powr 6) powr (1461 / 8)" by (rule arg_cong)
  also have "\<dots> = 2 powr (6 * (1461 / 8))" by (rule powr_powr)
  finally have e: "(64::real) powr (1461 / 8) = 2 powr (6 * (1461 / 8))" .
  have "(2::real) powr 1024 \<le> 2 powr (6 * (1461 / 8))" by (rule powr_mono) simp_all
  moreover have "(2::real) powr 1024 = 2 ^ 1024" by (rule powr_numeral) simp
  moreover have "(2::real) ^ 1024 - 2 ^ 970 \<le> 2 ^ 1024" by simp
  ultimately have "float64_overflow \<le> (64::real) powr (1461 / 8)"
    unfolding float64_overflow_def e by linarith
  then show ?thesis by (simp add: cagr_def fsub_def)
qed

lemma ex_steep_added:
  "add_cumulative_return (ex_frame both [(1, 1), (2, 2), (3, 64)]) ''Adj Close'' = Inr ex_steep"
  by (simp add: add_cumulative_return_def ex_steep_def ex_defs frame_defs fsub_def)

lemma ex_steep_cagr:
  "\<exists>st. calculate_statistics ex_steep ''Adj Close'' = ([], Some st) \<and> cagr_pct st = PInf"
  by (simp add: ex_steep_def ex_defs frame_defs stat_defs cagr_overflows finf_def)

section \<open>Properties of the analysis run\<close>

lemmas run_defs = stats_step_def price_col_def PRICE_COLUMNS_def add_cumulative_return_def

lemma step_single:
  "stats_step (m, dn, sd) (''A'', ex_frame both [(1, 10)]) =
     Inr (m, dn @ [(''A'', ex_single)], sd @ [(''A'', None)])"
  by (simp add: run_defs ex_single_def ex_defs frame_defs stat_defs)

lemma step_rising:
  "\<exists>st. stats_step (m, dn, sd) (''B'', ex_frame both [(1, 5), (2, 6), (3, 7)]) =
     Inr (m, dn @ [(''B'', ex_rising)], sd @ [(''B'', Some st)])"
  by (simp add: run_defs ex_rising_def ex_defs frame_defs stat_defs)

text \<open>
  C1. A run over two tickers, the first with a single observation: its statistics are the
  empty record, and reading the ranking key of that record raises \<^verbatim>\<open>KeyError\<close>, which
  nothing catches. The run ends there, before the ranking, the correlation and the chart
  of the other ticker.
\<close>

theorem empty_record_crashes_ranking:
  "run_analysis ex_short All_data 0 0 = Crashed [] KeyError"
proof -
  obtain st where "stats_step ([], [(''A'', ex_single)], [(''A'', None)])
      (''B'', ex_frame both [(1, 5), (2, 6), (3, 7)]) =
     Inr ([], [(''A'', ex_single)] @ [(''B'', ex_rising)], [(''A'', None)] @ [(''B'', Some st)])"
    using step_rising by blast
  then show ?thesis
    by (simp add: run_analysis_def dispatch_align_def ex_short_def step_single sorted_tickers_def)
qed

lemma no_adj_close:
  assumes "\<forall>(t, d) \<in> set dd. ''Adj Close'' \<notin> set (columns d)" and "ranked \<noteq> []"
  shows "calculate_correlation_table dd ranked = Inl KeyError"
proof -
  have "filter (\<lambda>(ticker, data). ''Adj Close'' \<in> set (columns data)) dd = []"
    using assms(1) by (auto simp: filter_empty_conv)
  moreover obtain t ts where "ranked = t # ts" using assms(2) by (cases ranked) auto
  ultimately show ?thesis by (simp add: calculate_correlation_table_def return_columns_def)
qed


lemma rank_keys_fst: "rank_keys sd = Inr ks \<Longrightarrow> map fst ks = map fst sd"
proof (induction sd arbitrary: ks rule: rank_keys.induct)
  case 1
  then show ?case by simp
next
  case (2 ticker sd)
  then show ?case by simp
next
  case (3 ticker st sd)
  then show ?case by (auto split: sum.splits)
qed

lemma rank_keys_Some:
  "\<forall>(t, r) \<in> set sd. r \<noteq> None \<Longrightarrow> \<exists>ks. rank_keys sd = Inr ks"
proof (induction sd rule: rank_keys.induct)
  case 1
  then show ?case by simp
next
  case (2 ticker sd)
  then show ?case by simp
next
  case (3 ticker st sd)
  then show ?case by (auto split: sum.splits)
qed

lemma rank_keys_None: "(t, None) \<in> set sd \<Longrightarrow> rank_keys sd = Inl KeyError"
proof (induction sd rule: rank_keys.induct)
  case 1
  then show ?case by simp
next
  case (2 ticker sd)
  then show ?case by simp
next
  case (3 ticker st sd)
  then show ?case by (auto split: sum.splits)
qed

lemma set_insert_desc: "set (insert_desc x ys) = insert x (set ys)"
  by (induction ys) auto

lemma set_foldr_insert_desc: "set (foldr insert_desc ks []) = set ks"
  by (induction ks) (simp_all add: set_insert_desc)

lemma length_insert_desc: "length (insert_desc x ys) = Suc (length ys)"
  by (induction ys) auto

lemma length_foldr_insert_desc: "length (foldr insert_desc ks []) = length ks"
  by (induction ks) (simp_all add: length_insert_desc)

lemma sorted_tickers_set:
  assumes "sorted_tickers sd = Inr ranked"
  shows "set ranked = fst ` set sd \<and> length ranked = length sd"
proof -
  from assms obtain ks where ks: "rank_keys sd = Inr ks"
    and r: "ranked = map fst (foldr insert_desc ks [])"
    by (auto simp: sorted_tickers_def split: sum.splits)
  have "set ranked = fst ` set ks" unfolding r by (simp add: set_foldr_insert_desc)
  also have "\<dots> = set (map fst ks)" by simp
  also have "\<dots> = fst ` set sd" unfolding rank_keys_fst[OF ks] by simp
  finally have a: "set ranked = fst ` set sd" .
  have "length ranked = length (map fst ks)" unfolding r by (simp add: length_foldr_insert_desc)
  also have "\<dots> = length sd" unfolding rank_keys_fst[OF ks] by simp
  finally show ?thesis using a by simp
qed

lemma sorted_tickers_Some:
  "\<forall>(t, r) \<in> set sd. r \<noteq> None \<Longrightarrow> \<exists>ranked. sorted_tickers sd = Inr ranked"
  using rank_keys_Some[of sd] by (auto simp: sorted_tickers_def)

lemma step_close_A:
  "\<exists>st. stats_step (m, dn, sd) (''A'', ex_frame [''Close''] [(1, 10), (2, 11), (3, 12)]) =
     Inr (m, dn @ [(''A'', ex_close_A)], sd @ [(''A'', Some st)])"
  by (simp add: run_defs ex_close_A_def ex_defs frame_defs stat_defs)

lemma step_close_B:
  "\<exists>st. stats_step (m, dn, sd) (''B'', ex_frame [''Close''] [(1, 5), (2, 6), (3, 7)]) =
     Inr (m, dn @ [(''B'', ex_close_B)], sd @ [(''B'', Some st)])"
  by (simp add: run_defs ex_close_B_def ex_defs frame_defs stat_defs)

lemma ex_close_columns:
  "columns ex_close_A = [''Close'', ''Cumulative Return'']"
  "columns ex_close_B = [''Close'', ''Cumulative Return'']"
  by (simp_all add: ex_close_A_def ex_close_B_def ex_defs frame_defs)

text \<open>
  C4. A run over two tickers whose frames have the price field \<^verbatim>\<open>Close\<close> but not
  \<^verbatim>\<open>Adj Close\<close>: the statistics use \<^verbatim>\<open>Close\<close>, both tickers are ranked, and the
  correlation table, which reads \<^verbatim>\<open>Adj Close\<close> only, has no column for them, so that
  selecting the ranked tickers raises \<^verbatim>\<open>KeyError\<close>.
\<close>

theorem close_only_crashes_correlation:
  "run_analysis ex_close_only All_data 0 0 = Crashed [] KeyError"
proof -
  obtain stA where a: "stats_step ([], [], [])
      (''A'', ex_frame [''Close''] [(1, 10), (2, 11), (3, 12)]) =
      Inr ([], [] @ [(''A'', ex_close_A)], [] @ [(''A'', Some stA)])"
    using step_close_A by blast
  obtain stB where b: "stats_step ([], [(''A'', ex_close_A)], [(''A'', Some stA)])
      (''B'', ex_frame [''Close''] [(1, 5), (2, 6), (3, 7)]) =
      Inr ([], [(''A'', ex_close_A)] @ [(''B'', ex_close_B)],
           [(''A'', Some stA)] @ [(''B'', Some stB)])"
    using step_close_B by blast
  let ?dd = "[(''A'', ex_close_A), (''B'', ex_close_B)]"
  let ?sd = "[(''A'', Some stA), (''B'', Some stB)]"
  have loop: "stats_loop ([], [], []) ex_close_only = Inr ([], ?dd, ?sd)"
    using a b by (simp add: ex_close_only_def)
  have "\<forall>(t, r) \<in> set ?sd. r \<noteq> None" by simp
  then obtain ranked where r: "sorted_tickers ?sd = Inr ranked"
    using sorted_tickers_Some by blast
  from sorted_tickers_set[OF r] have "length ranked = length ?sd" by (rule conjunct2)
  then have "ranked \<noteq> []" by auto
  moreover have "\<forall>(t, d) \<in> set ?dd. ''Adj Close'' \<notin> set (columns d)"
    by (simp add: ex_close_columns)
  ultimately have c: "calculate_correlation_table ?dd ranked = Inl KeyError"
    by (intro no_adj_close)
  have ne: "ex_close_only \<noteq> []" by (simp add: ex_close_only_def)
  show ?thesis
    unfolding run_analysis_def dispatch_align_def using ne loop r c by simp
qed

lemma trim_Inr:
  assumes "dd \<noteq> []"
  shows "trim dd opt a b = Inr (map (\<lambda>(t, d). (t, keep_rows (in_window dd opt a b) d)) dd)"
proof -
  have m: "map (\<lambda>(t, d). (t, keep_rows (\<lambda>dt. True) d)) dd = dd"
    by (induction dd) (auto simp: keep_rows_True)
  show ?thesis
  proof (cases opt)
    case All_data
    have "in_window dd opt a b = (\<lambda>dt. True)" by (rule ext) (simp add: in_window_def All_data)
    then show ?thesis by (simp add: trim_def All_data m)
  next
    case Earliest_common
    from assms obtain c where c: "common_start_date dd = Inr c"
      by (cases dd) (auto simp: common_start_date_def)
    have "in_window dd opt a b = (\<lambda>dt. ts_ge dt c)"
      by (rule ext) (cases c; simp add: in_window_def Earliest_common c)
    then show ?thesis by (simp add: trim_def Earliest_common c)
  next
    case Custom_date
    show ?thesis
    proof (cases "\<exists>s e. a = Some s \<and> b = Some e")
      case True
      then obtain s e where se: "a = Some s" "b = Some e" by blast
      have "in_window dd opt a b = (\<lambda>dt. dt \<ge> s \<and> dt \<le> e)"
        by (rule ext) (auto simp: in_window_def Custom_date se)
      then show ?thesis by (simp add: trim_def Custom_date se)
    next
      case False
      have "in_window dd opt a b = (\<lambda>dt. True)"
        using False by (intro ext) (auto simp: in_window_def Custom_date split: option.splits)
      moreover have "trim dd opt a b = Inr dd"
        using False by (auto simp: trim_def Custom_date split: option.splits)
      ultimately show ?thesis by (simp add: m)
    qed
  qed
qed

lemma align_all_empty:
  assumes "dd \<noteq> []"
    and "\<forall>(t, d) \<in> set dd. empty_frame (keep_rows (in_window dd opt a b) d)"
  shows "align_stock_data dd opt a b = ([Alignment_error All_empty], [])"
proof -
  have "filter (\<lambda>(ticker, d). \<not> empty_frame d)
          (map (\<lambda>(t, d). (t, keep_rows (in_window dd opt a b) d)) dd) = []"
    using assms(2) by (auto simp: filter_empty_conv)
  then show ?thesis by (simp add: align_stock_data_def trim_Inr[OF assms(1)])
qed

lemma in_window_Earliest: "in_window dd Earliest_common a b = in_window dd Earliest_common a' b'"
  by (rule ext) (simp add: in_window_def)

text \<open>
  C3 (amended). Under the "earliest common date" and the "custom date range" policy, when
  the dataset is not empty and every series is empty after trimming to the policy's
  window, alignment reports the error "All datasets are empty after alignment" and
  returns the empty dataset, and the run halts there: no statistics, correlation or chart
  is computed.
\<close>

theorem alignment_failure_halts:
  assumes "opt \<noteq> All_data" and "dd \<noteq> []"
    and "\<forall>(t, d) \<in> set dd. empty_frame (keep_rows (in_window dd opt (Some cs) (Some ce)) d)"
  shows "dispatch_align dd opt cs ce = ([Alignment_error All_empty], [])
    \<and> run_analysis dd opt cs ce = Halted [Alignment_error All_empty]"
proof -
  have d: "dispatch_align dd opt cs ce = ([Alignment_error All_empty], [])"
  proof (cases opt)
    case All_data
    with assms(1) show ?thesis by simp
  next
    case Earliest_common
    have "align_stock_data dd opt None None = ([Alignment_error All_empty], [])"
      using assms(3) unfolding Earliest_common
      by (intro align_all_empty[OF assms(2)])
         (simp only: in_window_Earliest[of dd None None "Some cs" "Some ce"])
    then show ?thesis by (simp add: dispatch_align_def Earliest_common)
  next
    case Custom_date
    have "align_stock_data dd opt (Some cs) (Some ce) = ([Alignment_error All_empty], [])"
      using assms(3) by (intro align_all_empty[OF assms(2)])
    then show ?thesis by (simp add: dispatch_align_def Custom_date)
  qed
  then show ?thesis using assms(2) by (simp add: run_analysis_def)
qed

theorem alignment_failure_halts_witness:
  "Custom_date \<noteq> All_data \<and> ex_two \<noteq> []
   \<and> list_all (\<lambda>(t, d). empty_frame (keep_rows (in_window ex_two Custom_date (Some 100) (Some 200)) d))
        ex_two
   \<and> run_analysis ex_two Custom_date 100 200 = Halted [Alignment_error All_empty]"
proof -
  have h1: "Custom_date \<noteq> All_data" by simp
  have h2: "ex_two \<noteq> []" by (simp add: ex_two_def)
  have h3: "\<forall>(t, d) \<in> set ex_two.
      empty_frame (keep_rows (in_window ex_two Custom_date (Some 100) (Some 200)) d)"
    by (simp add: ex_two_def in_window_def ex_defs frame_defs)
  from alignment_failure_halts[OF h1 h2 h3]
  have "run_analysis ex_two Custom_date 100 200 = Halted [Alignment_error All_empty]" by blast
  moreover from h3 have "list_all (\<lambda>(t, d).
      empty_frame (keep_rows (in_window ex_two Custom_date (Some 100) (Some 200)) d)) ex_two"
    by (simp add: list_all_iff)
  ultimately show ?thesis using h2 by simp
qed

text \<open>
  Under "all data available" no alignment is called: a dataset whose only series has no
  row gets no alignment error, and the run goes on to the statistics, where
  \<^verbatim>\<open>.iloc[0]\<close> raises \<^verbatim>\<open>IndexError\<close>.
\<close>

theorem all_data_skips_alignment:
  "list_all (\<lambda>(t, d). empty_frame (keep_rows (in_window ex_no_rows All_data None None) d)) ex_no_rows
   \<and> dispatch_align ex_no_rows All_data 0 0 = ([], ex_no_rows)
   \<and> run_analysis ex_no_rows All_data 0 0 = Crashed [] IndexError"
  by (simp add: run_analysis_def dispatch_align_def ex_no_rows_def run_defs ex_defs frame_defs
      in_window_def)

section \<open>Properties of the correlation\<close>

lemma ex_flat_returns:
  "return_columns ex_flat =
     [(''A'', [(2, Fin 0), (3, Fin 0)]), (''B'', [(2, Fin (1 / 5)), (3, Fin (1 / 6))])]"
  by (simp add: return_columns_def ex_flat_def returns_series_def pct_change_def fsub_def
      ex_defs frame_defs)

lemma ex_flat_index:
  "union_index [[(2, Fin 0), (3, Fin 0)], [(2, Fin (1 / 5)), (3, Fin (1 / 6))]] = [2, 3]"
  by (simp add: union_index_def)

lemma ex_flat_pearson:
  "pearson (paired [2, 3] [(2, Fin 0), (3, Fin 0)] [(2, Fin 0), (3, Fin 0)]) = NaN"
  by (simp add: paired_def List.map_filter_simps pearson_def sxx_def syy_def sxy_def mean_def)

text \<open>
  A ticker whose price never moves has two daily returns, both 0; their variance is 0, and
  its diagonal entry of the correlation matrix is \<^verbatim>\<open>NaN\<close>, not 1.
\<close>

theorem constant_returns_diagonal:
  "length (snd (return_columns ex_flat ! 0)) = 2
   \<and> (\<exists>m. calculate_correlation_table ex_flat [''B'', ''A''] = Inr m \<and> cells m ! 1 ! 1 = NaN)"
  by (simp add: calculate_correlation_table_def ex_flat_returns ex_flat_index ex_flat_pearson Let_def)

lemma paired_swap: "paired idx b a = map prod.swap (paired idx a b)"
  by (induction idx) (auto simp: paired_def List.map_filter_simps split: option.splits)

lemma finite_pairs_swap:
  "finite_pairs (map prod.swap ps) = map prod.swap (finite_pairs ps)"
  by (induction ps rule: finite_pairs.induct) simp_all

lemma sums_swap:
  "sxy (map prod.swap qs) = sxy qs"
  "sxx (map prod.swap qs) = syy qs"
  "syy (map prod.swap qs) = sxx qs"
  by (simp_all add: sxy_def sxx_def syy_def comp_def case_prod_unfold mult.commute)

lemma pearson_swap: "pearson (map prod.swap ps) = pearson ps"
  by (simp add: pearson_def finite_pairs_swap sums_swap mult.commute Let_def)

lemma quad_expand:
  fixes t :: real
  shows "sum_list (map (\<lambda>(a, b). (a * t + b)\<^sup>2) ps) =
         t\<^sup>2 * sum_list (map (\<lambda>(a, b). a\<^sup>2) ps)
         + 2 * t * sum_list (map (\<lambda>(a, b). a * b) ps)
         + sum_list (map (\<lambda>(a, b). b\<^sup>2) ps)"
  by (induction ps) (auto simp: algebra_simps power2_eq_square)

lemma sum_squares_nonneg:
  fixes f :: "'a \<Rightarrow> real"
  shows "0 \<le> sum_list (map (\<lambda>p. (f p)\<^sup>2) ps)"
  by (rule sum_list_nonneg) auto

lemma cauchy_schwarz_list:
  fixes ps :: "(real \<times> real) list"
  shows "(sum_list (map (\<lambda>(a, b). a * b) ps))\<^sup>2
         \<le> sum_list (map (\<lambda>(a, b). a\<^sup>2) ps) * sum_list (map (\<lambda>(a, b). b\<^sup>2) ps)"
proof -
  define A where "A = sum_list (map (\<lambda>(a, b). a\<^sup>2) ps)"
  define B where "B = sum_list (map (\<lambda>(a, b). b\<^sup>2) ps)"
  define C where "C = sum_list (map (\<lambda>(a, b). a * b) ps)"
  have nn: "0 \<le> t\<^sup>2 * A + 2 * t * C + B" for t
  proof -
    have "0 \<le> sum_list (map (\<lambda>p. (fst p * t + snd p)\<^sup>2) ps)" by (rule sum_squares_nonneg)
    then show ?thesis
      unfolding A_def B_def C_def quad_expand[symmetric] by (simp add: case_prod_unfold)
  qed
  have A0: "0 \<le> A" unfolding A_def using sum_squares_nonneg[of fst ps] by (simp add: case_prod_unfold)
  show ?thesis
  proof (cases "A = 0")
    case True
    have "C = 0"
    proof (rule ccontr)
      assume c: "C \<noteq> 0"
      have "0 \<le> (- (B + 1) / (2 * C))\<^sup>2 * A + 2 * (- (B + 1) / (2 * C)) * C + B" by (rule nn)
      with True c show False by (simp add: field_simps)
    qed
    with True show ?thesis unfolding A_def[symmetric] B_def[symmetric] C_def[symmetric] by simp
  next
    case False
    with A0 have pos: "0 < A" by simp
    have "0 \<le> (- C / A)\<^sup>2 * A + 2 * (- C / A) * C + B" by (rule nn)
    also have "(- C / A)\<^sup>2 * A + 2 * (- C / A) * C + B = B - C\<^sup>2 / A"
      using pos by (simp add: field_simps power2_eq_square)
    finally have "C\<^sup>2 / A \<le> B" by simp
    then have "C\<^sup>2 \<le> B * A" using pos by (simp add: pos_divide_le_eq)
    then show ?thesis unfolding A_def[symmetric] B_def[symmetric] C_def[symmetric]
      by (simp add: mult.commute)
  qed
qed

lemma sxy_bound: "(sxy qs)\<^sup>2 \<le> sxx qs * syy qs"
  using cauchy_schwarz_list[of "map (\<lambda>(x, y). (x - mean (map fst qs), y - mean (map snd qs))) qs"]
  by (simp add: sxy_def sxx_def syy_def comp_def case_prod_unfold)

lemma sxx_nonneg: "0 \<le> sxx qs"
  unfolding sxx_def using sum_squares_nonneg[of "\<lambda>p. fst p - mean (map fst qs)" qs]
  by (simp add: case_prod_unfold)

lemma syy_nonneg: "0 \<le> syy qs"
  unfolding syy_def using sum_squares_nonneg[of "\<lambda>p. snd p - mean (map snd qs)" qs]
  by (simp add: case_prod_unfold)

lemma pearson_range: "pearson ps = NaN \<or> (\<exists>r. pearson ps = Fin r \<and> - 1 \<le> r \<and> r \<le> 1)"
proof -
  define qs where "qs = finite_pairs ps"
  define dv where "dv = sqrt (sxx qs * syy qs)"
  show ?thesis
  proof (cases "length qs < 1 \<or> dv = 0")
    case True
    then show ?thesis by (auto simp: pearson_def qs_def dv_def Let_def)
  next
    case False
    then have p: "pearson ps = Fin (sxy qs / dv)" by (simp add: pearson_def qs_def dv_def Let_def)
    have "0 \<le> dv" unfolding dv_def by (simp add: sxx_nonneg syy_nonneg)
    with False have pos: "0 < dv" by simp
    have "\<bar>sxy qs\<bar>\<^sup>2 \<le> sxx qs * syy qs" using sxy_bound[of qs] by simp
    then have "\<bar>sxy qs\<bar> \<le> dv" unfolding dv_def by (rule real_le_rsqrt)
    then have "- dv \<le> sxy qs" and "sxy qs \<le> dv" by linarith+
    then have "- 1 \<le> sxy qs / dv \<and> sxy qs / dv \<le> 1"
      using pos by (simp add: pos_le_divide_eq pos_divide_le_eq)
    with p show ?thesis by blast
  qed
qed

lemma round4_one: "round4 1 = 1" "round4 (- 1) = - 1"
  using round4_of_int[of 1] round4_of_int[of "- 1"] by simp_all

lemma fround4_range:
  assumes "v = NaN \<or> (\<exists>r. v = Fin r \<and> - 1 \<le> r \<and> r \<le> 1)"
  shows "fround4 v = NaN \<or> (\<exists>r. fround4 v = Fin r \<and> - 1 \<le> r \<and> r \<le> 1)"
proof -
  have "- 1 \<le> round4 r \<and> round4 r \<le> 1" if "- 1 \<le> r" "r \<le> 1" for r
    using round4_mono[OF that(1)] round4_mono[OF that(2)] by (simp add: round4_one)
  with assms show ?thesis by auto
qed

lemma set_map_filter_conv:
  "set (List.map_filter g xs) = {y. \<exists>x \<in> set xs. g x = Some y}"
  by (induction xs) (auto split: option.splits)

lemma is_fin_iff: "is_fin v \<longleftrightarrow> (\<exists>x. v = Fin x)"
  by (cases v) simp_all

lemma paired_self_set:
  assumes "distinct (map fst s)" and "fst ` set s \<subseteq> set idx"
  shows "set (paired idx s s) = (\<lambda>(d, v). (v, v)) ` set s"
proof -
  have m: "map_of s d = Some v \<longleftrightarrow> (d, v) \<in> set s" for d v
    using assms(1) by simp
  have "set (paired idx s s) = {(v, v) |d v. d \<in> set idx \<and> map_of s d = Some v}"
    unfolding paired_def set_map_filter_conv by (auto split: option.splits)
  also have "\<dots> = {(v, v) |d v. (d, v) \<in> set s}"
    using assms(2) unfolding m by force
  also have "\<dots> = (\<lambda>(d, v). (v, v)) ` set s" by force
  finally show ?thesis .
qed

lemma finite_pairs_all:
  "\<forall>p \<in> set ps. is_fin (fst p) \<and> is_fin (snd p) \<Longrightarrow>
   ps = map (\<lambda>(x, y). (Fin x, Fin y)) (finite_pairs ps)"
  by (induction ps rule: finite_pairs.induct) simp_all

lemma sum_list_squares_zero:
  fixes f :: "'a \<Rightarrow> real"
  assumes "sum_list (map (\<lambda>p. (f p)\<^sup>2) ps) = 0" and "p \<in> set ps"
  shows "f p = 0"
  using assms
proof (induction ps)
  case Nil
  then show ?case by simp
next
  case (Cons q qs)
  have a: "0 \<le> (f q)\<^sup>2" by simp
  have b: "0 \<le> sum_list (map (\<lambda>p. (f p)\<^sup>2) qs)" by (rule sum_squares_nonneg)
  from Cons.prems(1) have "(f q)\<^sup>2 + sum_list (map (\<lambda>p. (f p)\<^sup>2) qs) = 0" by simp
  with a b have "(f q)\<^sup>2 = 0" and z: "sum_list (map (\<lambda>p. (f p)\<^sup>2) qs) = 0" by linarith+
  then have "f q = 0" by simp
  with Cons.IH[OF z] Cons.prems(2) show ?case by auto
qed

lemma sxx_pos:
  assumes "(x, x') \<in> set qs" and "(y, y') \<in> set qs" and "x \<noteq> y"
  shows "0 < sxx qs"
proof (rule ccontr)
  assume "\<not> 0 < sxx qs"
  with sxx_nonneg[of qs] have "sxx qs = 0" by simp
  then have z: "sum_list (map (\<lambda>p. (fst p - mean (map fst qs))\<^sup>2) qs) = 0"
    by (simp add: sxx_def case_prod_unfold)
  from sum_list_squares_zero[OF z assms(1)] sum_list_squares_zero[OF z assms(2)]
  have "x = y" by simp
  with assms(3) show False by simp
qed

lemma diag_sums:
  assumes "\<forall>(x, y) \<in> set qs. x = y"
  shows "sxy qs = sxx qs \<and> syy qs = sxx qs"
proof -
  have e: "map snd qs = map fst qs" using assms by (induction qs) auto
  have a: "(case p of (x, y) \<Rightarrow> (x - c) * (y - c)) = (case p of (x, y) \<Rightarrow> (x - c)\<^sup>2)"
    if "p \<in> set qs" for p and c :: real
    using assms that by (auto simp: power2_eq_square)
  have b: "(case p of (x, y) \<Rightarrow> (y - c)\<^sup>2) = (case p of (x, y) \<Rightarrow> (x - c)\<^sup>2)"
    if "p \<in> set qs" for p and c :: real
    using assms that by auto
  have "sxy qs = sxx qs"
    unfolding sxy_def sxx_def e by (rule arg_cong[where f = sum_list], rule map_cong[OF refl]) (rule a)
  moreover have "syy qs = sxx qs"
    unfolding syy_def sxx_def e by (rule arg_cong[where f = sum_list], rule map_cong[OF refl]) (rule b)
  ultimately show ?thesis by simp
qed

lemma varying_returnsD:
  assumes "varying_returns s"
  shows "distinct (map fst s)" and "\<forall>(d, v) \<in> set s. \<exists>x. v = Fin x"
    and "\<exists>d1 d2 x y. (d1, Fin x) \<in> set s \<and> (d2, Fin y) \<in> set s \<and> x \<noteq> y"
proof -
  show d: "distinct (map fst s)" using assms by (simp add: varying_returns_def)
  have "\<forall>(d, v) \<in> set s. is_fin v" using assms by (simp add: varying_returns_def list_all_iff)
  then show f: "\<forall>(d, v) \<in> set s. \<exists>x. v = Fin x"
    by (auto simp: is_fin_iff)
  from assms obtain d2 v where v: "(d2, v) \<in> set s" "v \<noteq> snd (hd s)"
    by (auto simp: varying_returns_def list_ex_iff)
  then have ne: "s \<noteq> []" by auto
  then have h: "hd s \<in> set s" by simp
  obtain d1 w where hd: "hd s = (d1, w)" by (cases "hd s")
  from f h hd obtain x where x: "w = Fin x" by auto
  from f v(1) obtain y where y: "v = Fin y" by auto
  from v(2) hd x y have "x \<noteq> y" by auto
  moreover have "(d1, Fin x) \<in> set s" using h hd x by simp
  moreover have "(d2, Fin y) \<in> set s" using v(1) y by simp
  ultimately show "\<exists>d1 d2 x y. (d1, Fin x) \<in> set s \<and> (d2, Fin y) \<in> set s \<and> x \<noteq> y" by blast
qed

lemma pearson_diag:
  assumes "varying_returns s" and "fst ` set s \<subseteq> set idx"
  shows "pearson (paired idx s s) = Fin 1"
proof -
  note vr = varying_returnsD[OF assms(1)]
  let ?ps = "paired idx s s"
  have st: "set ?ps = (\<lambda>(d, v). (v, v)) ` set s" by (rule paired_self_set[OF vr(1) assms(2)])
  have fin: "is_fin (fst p) \<and> is_fin (snd p)" if "p \<in> set ?ps" for p
  proof -
    from that obtain d v where "(d, v) \<in> set s" "p = (v, v)" unfolding st by auto
    with vr(2) show ?thesis by (auto simp: is_fin_iff)
  qed
  define qs where "qs = finite_pairs ?ps"
  have fp: "finite_pairs ?ps = qs" by (simp add: qs_def)
  have ps: "?ps = map (\<lambda>(x, y). (Fin x, Fin y)) qs"
    unfolding qs_def using fin by (intro finite_pairs_all) blast
  have sq: "set ?ps = (\<lambda>(x, y). (Fin x, Fin y)) ` set qs" by (subst ps) simp
  have eq: "\<forall>(x, y) \<in> set qs. x = y"
  proof (clarify)
    fix x y assume "(x, y) \<in> set qs"
    then have "(Fin x, Fin y) \<in> set ?ps" unfolding sq by force
    then show "x = y" unfolding st by auto
  qed
  from vr(3) obtain d1 d2 x y where
    xy: "(d1, Fin x) \<in> set s" "(d2, Fin y) \<in> set s" "x \<noteq> y" by blast
  have "(Fin x, Fin x) \<in> set ?ps" "(Fin y, Fin y) \<in> set ?ps" unfolding st using xy by force+
  then have mem: "(x, x) \<in> set qs" "(y, y) \<in> set qs" unfolding sq by auto
  from sxx_pos[OF mem xy(3)] have pos: "0 < sxx qs" .
  from mem have len: "\<not> length qs < 1" by (cases qs) auto
  from diag_sums[OF eq] have s: "sxy qs = sxx qs" "syy qs = sxx qs" by simp_all
  have "sqrt (sxx qs * sxx qs) = sxx qs" using pos by simp
  then show ?thesis using pos len by (simp add: pearson_def fp s Let_def)
qed

lemma set_union_index: "set (union_index cols) = (\<Union>c \<in> set cols. fst ` set c)"
  by (simp add: union_index_def)

lemma correlation_cells:
  assumes "calculate_correlation_table dd ranked = Inr m"
  shows "labels m = ranked"
    and "cells m = map (\<lambda>r. map (\<lambda>c. fround4 (pearson (paired (union_index (map snd (return_columns dd)))
            (case map_of (return_columns dd) r of Some s \<Rightarrow> s | None \<Rightarrow> [])
            (case map_of (return_columns dd) c of Some s \<Rightarrow> s | None \<Rightarrow> [])))) ranked) ranked"
  using assms by (auto simp: calculate_correlation_table_def Let_def split: if_splits)

text \<open>
  C5 (amended). A correlation matrix that \<^verbatim>\<open>calculate_correlation_table\<close> returns has the
  supplied ranked tickers as labels of both axes, in that order, and is square; it is
  symmetric; every entry is \<^verbatim>\<open>NaN\<close> or lies in [-1, 1]; and the diagonal entry of a
  ticker is exactly 1 when its daily returns, one per date, are finite and not all equal.
  (A ticker whose returns are all equal has \<^verbatim>\<open>NaN\<close> on the diagonal.)
\<close>

theorem correlation_matrix_invariant:
  assumes "calculate_correlation_table dd ranked = Inr m"
  shows "labels m = ranked
    \<and> length (cells m) = length ranked
    \<and> (\<forall>row \<in> set (cells m). length row = length ranked)
    \<and> (\<forall>i < length ranked. \<forall>j < length ranked.
          cells m ! i ! j = cells m ! j ! i
          \<and> (cells m ! i ! j = NaN \<or> (\<exists>r. cells m ! i ! j = Fin r \<and> - 1 \<le> r \<and> r \<le> 1)))
    \<and> (\<forall>i < length ranked. \<forall>s.
          map_of (return_columns dd) (ranked ! i) = Some s \<and> varying_returns s
          \<longrightarrow> cells m ! i ! i = Fin 1)"
proof -
  define idx where "idx = union_index (map snd (return_columns dd))"
  define col where
    "col = (\<lambda>ticker. case map_of (return_columns dd) ticker of Some s \<Rightarrow> s | None \<Rightarrow> [])"
  define cell where "cell = (\<lambda>r c. fround4 (pearson (paired idx (col r) (col c))))"
  have lab: "labels m = ranked" using assms by (rule correlation_cells(1))
  have cs: "cells m = map (\<lambda>r. map (\<lambda>c. cell r c) ranked) ranked"
    unfolding cell_def idx_def col_def using assms by (rule correlation_cells(2))
  have len: "length (cells m) = length ranked" unfolding cs by simp
  have rows: "\<forall>row \<in> set (cells m). length row = length ranked" unfolding cs by auto
  have nth: "cells m ! i ! j = cell (ranked ! i) (ranked ! j)"
    if "i < length ranked" "j < length ranked" for i j
    unfolding cs using that by simp
  have sym: "cell r c = cell c r" for r c
  proof -
    have "pearson (paired idx (col c) (col r)) = pearson (map prod.swap (paired idx (col r) (col c)))"
      by (simp only: paired_swap[of idx "col c" "col r"])
    then show ?thesis unfolding cell_def by (simp only: pearson_swap)
  qed
  have rng: "cell r c = NaN \<or> (\<exists>x. cell r c = Fin x \<and> - 1 \<le> x \<and> x \<le> 1)" for r c
    unfolding cell_def by (rule fround4_range) (rule pearson_range)
  have offd: "\<forall>i < length ranked. \<forall>j < length ranked.
          cells m ! i ! j = cells m ! j ! i
          \<and> (cells m ! i ! j = NaN \<or> (\<exists>r. cells m ! i ! j = Fin r \<and> - 1 \<le> r \<and> r \<le> 1))"
  proof (intro allI impI)
    fix i j assume ij: "i < length ranked" "j < length ranked"
    show "cells m ! i ! j = cells m ! j ! i
          \<and> (cells m ! i ! j = NaN \<or> (\<exists>r. cells m ! i ! j = Fin r \<and> - 1 \<le> r \<and> r \<le> 1))"
      unfolding nth[OF ij] nth[OF ij(2) ij(1)] using sym[of "ranked ! i" "ranked ! j"] rng by simp
  qed
  have diag: "\<forall>i < length ranked. \<forall>s.
          map_of (return_columns dd) (ranked ! i) = Some s \<and> varying_returns s
          \<longrightarrow> cells m ! i ! i = Fin 1"
  proof (intro allI impI)
    fix i s
    assume i: "i < length ranked"
      and s: "map_of (return_columns dd) (ranked ! i) = Some s \<and> varying_returns s"
    from s have c: "col (ranked ! i) = s" by (simp add: col_def)
    from s have "(ranked ! i, s) \<in> set (return_columns dd)" by (intro map_of_SomeD) simp
    then have "s \<in> set (map snd (return_columns dd))" by force
    then have sub: "fst ` set s \<subseteq> set idx" unfolding idx_def set_union_index by blast
    from s have "pearson (paired idx s s) = Fin 1" using sub by (intro pearson_diag) simp_all
    then have "cell (ranked ! i) (ranked ! i) = Fin 1"
      unfolding cell_def c by (simp add: round4_one)
    then show "cells m ! i ! i = Fin 1" unfolding nth[OF i i] .
  qed
  from lab len rows offd diag show ?thesis by blast
qed

lemma ex_flat_table: "\<exists>m. calculate_correlation_table ex_flat [''B'', ''A''] = Inr m"
  by (simp add: calculate_correlation_table_def ex_flat_returns Let_def)

lemma ex_flat_varying: "varying_returns [(2, Fin (1 / 5)), (3, Fin (1 / 6))]"
  by (simp add: varying_returns_def)

theorem correlation_matrix_invariant_witness:
  "map_of (return_columns ex_flat) ''B'' = Some [(2, Fin (1 / 5)), (3, Fin (1 / 6))]
   \<and> varying_returns [(2, Fin (1 / 5)), (3, Fin (1 / 6))]
   \<and> (\<exists>m. calculate_correlation_table ex_flat [''B'', ''A''] = Inr m
        \<and> labels m = [''B'', ''A''] \<and> cells m ! 0 ! 0 = Fin 1 \<and> cells m ! 0 ! 1 = cells m ! 1 ! 0)"
proof -
  obtain m where m: "calculate_correlation_table ex_flat [''B'', ''A''] = Inr m"
    using ex_flat_table by blast
  have r: "map_of (return_columns ex_flat) ([''B'', ''A''] ! 0) = Some [(2, Fin (1 / 5)), (3, Fin (1 / 6))]"
    by (simp add: ex_flat_returns)
  note inv = correlation_matrix_invariant[OF m]
  from inv have l: "labels m = [''B'', ''A'']" by blast
  from inv have d: "\<forall>i < length [''B'', ''A'']. \<forall>s.
          map_of (return_columns ex_flat) ([''B'', ''A''] ! i) = Some s \<and> varying_returns s
          \<longrightarrow> cells m ! i ! i = Fin 1" by blast
  have "cells m ! 0 ! 0 = Fin 1"
    using d[rule_format, of 0 "[(2, Fin (1 / 5)), (3, Fin (1 / 6))]"] r ex_flat_varying by simp
  moreover from inv have sy: "\<forall>i < length [''B'', ''A'']. \<forall>j < length [''B'', ''A''].
          cells m ! i ! j = cells m ! j ! i
          \<and> (cells m ! i ! j = NaN \<or> (\<exists>r. cells m ! i ! j = Fin r \<and> - 1 \<le> r \<and> r \<le> 1))" by blast
  have "cells m ! 0 ! 1 = cells m ! 1 ! 0"
    using sy[rule_format, of 0 1] by simp
  ultimately show ?thesis using m l r ex_flat_varying by simp
qed

end
